theory Spec2Isabelle
  imports Main
begin

section \<open>A shallow embedding of the lexer of \<^verbatim>\<open>src/lex.ts\<close>\<close>

text \<open>
  The source compiles rule specifications, grouped into named rule groups, into rules
  (\<^verbatim>\<open>compileLexer\<close>, \<^verbatim>\<open>buildRules\<close>, \<^verbatim>\<open>buildRule\<close>) and scans a text with a generator
  (\<^verbatim>\<open>lex\<close>) that keeps an offset and a stack of group names.

  Conventions of the embedding:
  \<^item> a JavaScript string is a list of HOL characters, one per code unit, so only the code
    units U+0000 to U+00FF are covered;
  \<^item> an exception is a value of type \<open>error\<close> on the left of a sum;
  \<^item> a call that never returns has the value \<open>None\<close>;
  \<^item> an action is a pure function from a token to a token or \<open>None\<close> (JavaScript's
    \<^verbatim>\<open>null\<close>);
  \<^item> the calls of \<^verbatim>\<open>dbg\<close> only write to the console and are left out; the variable
    \<^verbatim>\<open>dbg\<close> itself is the field \<open>dbg\<close> of the lexer (true when it holds
    \<^verbatim>\<open>dbgEnabled\<close>).
\<close>

subsection \<open>Errors, tokens, regular expressions, rules\<close>

datatype error = LexError | LexEndedError | InternalError | TypeError | SyntaxError

text \<open>The type \<^verbatim>\<open>Token\<close>. (The object \<^verbatim>\<open>makeToken\<close> builds also copies the other
  fields of the rule; the type \<^verbatim>\<open>Token\<close> hides them and nothing reads them.)\<close>

record token =
  tk_name :: string
  tk_group :: string
  tk_text :: string
  tk_offset :: nat
  tk_line :: nat
  tk_column :: nat

type_synonym action = "token \<Rightarrow> token option"

text \<open>
  A \<^verbatim>\<open>RegExp\<close> object: its source, its flags (in the canonical order
  \<^verbatim>\<open>dgimsuvy\<close>) and its matcher. For a sticky expression \<open>matcher r s i\<close> is the length
  of the match of \<open>r\<close> in \<open>s\<close> that starts exactly at index \<open>i\<close>, if there is one.
\<close>

record regexp =
  source :: string
  flags :: string
  matcher :: "string \<Rightarrow> nat \<Rightarrow> nat option"

record rule =
  name :: string
  rx :: regexp
  action :: action
  group :: string
  push :: "string option"
  pop :: bool

text \<open>\<^verbatim>\<open>rx.lastIndex = i; rx.exec(s)\<close> for a sticky \<open>rx\<close>: the matched text
  \<^verbatim>\<open>match[0]\<close>, a slice of \<open>s\<close> that starts at \<open>i\<close>; afterwards
  \<^verbatim>\<open>rx.lastIndex\<close> is \<open>i\<close> plus the length of that text.\<close>

definition exec :: "regexp \<Rightarrow> string \<Rightarrow> nat \<Rightarrow> string option" where
  "exec r s lastIndex =
     (if length s < lastIndex then None
      else case matcher r s lastIndex of
             None \<Rightarrow> None
           | Some n \<Rightarrow> Some (take n (drop lastIndex s)))"

definition toString :: "regexp \<Rightarrow> string" where
  "toString r = ''/'' @ source r @ ''/'' @ flags r"

definition endsWith :: "string \<Rightarrow> string \<Rightarrow> bool" where
  "endsWith str suf =
     (length suf \<le> length str \<and> drop (length str - length suf) str = suf)"

text \<open>The matcher of a pattern \<^verbatim>\<open>C+\<close> for a class \<open>C\<close> of characters: the longest
  non-empty run of characters of the class.\<close>

definition oneOrMore :: "(char \<Rightarrow> bool) \<Rightarrow> string \<Rightarrow> nat \<Rightarrow> nat option" where
  "oneOrMore cls s i =
     (let n = length (takeWhile cls (drop i s)) in if n = 0 then None else Some n)"

text \<open>Without the flag \<^verbatim>\<open>s\<close> the dot matches every character but the line
  terminators (of which line feed and carriage return are below U+0100).\<close>

definition lineTerminator :: "char \<Rightarrow> bool" where
  "lineTerminator c = (c = CHR 0x0A \<or> c = CHR 0x0D)"

definition identityAction :: action where
  "identityAction tok = Some tok"

text \<open>The rule for unexpected text, \<^verbatim>\<open>/.+/vy\<close>.\<close>

definition INVALID :: rule where
  "INVALID = \<lparr>name = ''INVALID'',
     rx = \<lparr>source = ''.+'', flags = ''vy'',
           matcher = oneOrMore (\<lambda>c. \<not> lineTerminator c)\<rparr>,
     action = identityAction, group = ''ALL'', push = None, pop = True\<rparr>"

subsection \<open>Literal strings as patterns\<close>

definition backslash :: char where
  "backslash = CHR 0x5C"

text \<open>The white space of \<^verbatim>\<open>\s\<close> below U+0100.\<close>

definition whiteSpace :: "char \<Rightarrow> bool" where
  "whiteSpace c = (c \<in> set [CHR 0x09, CHR 0x0A, CHR 0x0B, CHR 0x0C, CHR 0x0D, CHR 0x20, CHR 0xA0])"

text \<open>The characters of the class in \<^verbatim>\<open>rxEsc\<close>.\<close>

definition rxEscChar :: "char \<Rightarrow> bool" where
  "rxEscChar c = (c \<in> set ''-[]{}()*+!<=?./^$|#,'' \<or> c = backslash \<or> whiteSpace c)"

definition rxEsc :: "string \<Rightarrow> string" where
  "rxEsc str = concat (map (\<lambda>c. if rxEscChar c then [backslash, c] else [c]) str)"

text \<open>With the flag \<^verbatim>\<open>v\<close> a backslash before a character that is not a letter or a
  digit is an identity escape only before a syntax character or a slash; before any
  other such character the pattern is a syntax error.\<close>

definition identityEscape :: "char \<Rightarrow> bool" where
  "identityEscape c = (c \<in> set ''^$.*+?()[]{}|/'' \<or> c = backslash)"

text \<open>The syntax characters of a pattern, and the letters and digits, which after a
  backslash stand for classes, control characters, back references and the like.\<close>

definition syntaxCharacter :: "char \<Rightarrow> bool" where
  "syntaxCharacter c = (c \<in> set ''^$.*+?()[]{}|'' \<or> c = backslash)"

definition asciiAlnum :: "char \<Rightarrow> bool" where
  "asciiAlnum c =
     (c \<in> set ''abcdefghijklmnopqrstuvwxyzABCDEFGHIJKLMNOPQRSTUVWXYZ0123456789'')"

text \<open>
  What the constructor \<^verbatim>\<open>new RegExp(pattern, "vy")\<close> makes of a pattern, read from the
  left. Characters that are not syntax characters, and identity escapes, stand for
  themselves. The pattern is a syntax error when, before any syntax character has its
  meaning, a backslash ends it or stands before a character that is neither a letter, a
  digit, a syntax character nor a slash. It is a pattern proper (\<open>Meta\<close>) when a
  syntax character that is not escaped, or a backslash before a letter or a digit, comes
  first. A pattern made of the first two only stands for a literal text.
\<close>

datatype pattern = Literal string | Invalid | Meta

fun literalThen :: "char \<Rightarrow> pattern \<Rightarrow> pattern" where
  "literalThen c (Literal lit) = Literal (c # lit)"
| "literalThen c Invalid = Invalid"
| "literalThen c Meta = Meta"

fun parsePattern :: "string \<Rightarrow> pattern" where
  "parsePattern [] = Literal []"
| "parsePattern [c] =
     (if c = backslash then Invalid else if syntaxCharacter c then Meta else Literal [c])"
| "parsePattern (c # d # cs) =
     (if c = backslash
      then (if identityEscape d then literalThen d (parsePattern cs)
            else if asciiAlnum d then Meta
            else Invalid)
      else if syntaxCharacter c then Meta
      else literalThen c (parsePattern (d # cs)))"

definition literalMatcher :: "string \<Rightarrow> string \<Rightarrow> nat \<Rightarrow> nat option" where
  "literalMatcher lit s i =
     (if take (length lit) (drop i s) = lit then Some (length lit) else None)"

text \<open>The constructor on the literal patterns and on the syntax errors. What it makes of a
  pattern proper is not modelled and left unspecified; \<^verbatim>\<open>toRx\<close> passes it none, as is
  proved of \<open>parsePattern\<close> and \<open>rxEsc\<close> below.\<close>

definition newRegExp :: "string \<Rightarrow> error + regexp" where
  "newRegExp pattern =
     (case parsePattern pattern of
        Invalid \<Rightarrow> Inl SyntaxError
      | Literal lit \<Rightarrow>
          Inr \<lparr>source = (if pattern = [] then ''(?:)'' else pattern), flags = ''vy'',
               matcher = literalMatcher lit\<rparr>
      | Meta \<Rightarrow> undefined)"

definition toRx :: "string \<Rightarrow> error + regexp" where
  "toRx str = newRegExp (rxEsc str)"

subsection \<open>Rule specifications\<close>

text \<open>The elements of a spec array, and the six forms of the type \<^verbatim>\<open>Spec\<close>, each with
  its optional action last.\<close>

datatype elem = Str string | Rx regexp | POP | Fn action

datatype spec =
    StringSpec string "action option"
  | StringPopSpec string "action option"
  | StringPushSpec string string "action option"
  | RegExpSpec string regexp "action option"
  | RegExpPopSpec string regexp "action option"
  | RegExpPushSpec string regexp string "action option"

fun optFn :: "action option \<Rightarrow> elem list" where
  "optFn None = []"
| "optFn (Some a) = [Fn a]"

fun elems :: "spec \<Rightarrow> elem list" where
  "elems (StringSpec n a) = Str n # optFn a"
| "elems (StringPopSpec n a) = Str n # POP # optFn a"
| "elems (StringPushSpec n p a) = Str n # Str p # optFn a"
| "elems (RegExpSpec n r a) = Str n # Rx r # optFn a"
| "elems (RegExpPopSpec n r a) = Str n # Rx r # POP # optFn a"
| "elems (RegExpPushSpec n r p a) = Str n # Rx r # Str p # optFn a"

text \<open>\<^verbatim>\<open>spec[i]\<close>: \<^verbatim>\<open>undefined\<close> beyond the end of the array.\<close>

definition at :: "spec \<Rightarrow> nat \<Rightarrow> elem option" where
  "at sp i = (if i < length (elems sp) then Some (elems sp ! i) else None)"

fun specName :: "spec \<Rightarrow> string" where
  "specName (StringSpec n a) = n"
| "specName (StringPopSpec n a) = n"
| "specName (StringPushSpec n p a) = n"
| "specName (RegExpSpec n r a) = n"
| "specName (RegExpPopSpec n r a) = n"
| "specName (RegExpPushSpec n r p a) = n"

fun isPOP :: "elem option \<Rightarrow> bool" where
  "isPOP (Some POP) = True"
| "isPOP _ = False"

fun isFn :: "elem \<Rightarrow> bool" where
  "isFn (Fn a) = True"
| "isFn _ = False"

definition specPop :: "spec \<Rightarrow> bool" where
  "specPop sp = (isPOP (at sp 1) \<or> isPOP (at sp 2))"

definition specPush :: "spec \<Rightarrow> string option" where
  "specPush sp =
     (case at sp 1 of
        Some (Str p) \<Rightarrow> Some p
      | _ \<Rightarrow> (case at sp 2 of Some (Str p) \<Rightarrow> Some p | _ \<Rightarrow> None))"

definition specAction :: "spec \<Rightarrow> action" where
  "specAction sp =
     (case filter isFn (elems sp) of Fn a # _ \<Rightarrow> a | _ \<Rightarrow> identityAction)"

definition asRx :: "elem option \<Rightarrow> regexp option" where
  "asRx e = (case e of Some (Rx r) \<Rightarrow> Some r | _ \<Rightarrow> None)"

definition buildRule :: "spec \<Rightarrow> string \<Rightarrow> error + rule" where
  "buildRule sp grp =
     (case (case asRx (at sp 1) of Some r \<Rightarrow> Inr r | None \<Rightarrow> toRx (specName sp)) of
        Inl e \<Rightarrow> Inl e
      | Inr r \<Rightarrow>
          if endsWith (toString r) ''/vy''
          then Inr \<lparr>name = specName sp, rx = r, action = specAction sp, group = grp,
                    push = specPush sp, pop = specPop sp\<rparr>
          else Inl LexError)"

subsection \<open>Compiling the rule groups\<close>

text \<open>
  \<^verbatim>\<open>Specs\<close> and \<^verbatim>\<open>Rules\<close> are objects used as dictionaries. \<^verbatim>\<open>Specs\<close> is modelled by
  its entries in the order \<^verbatim>\<open>Object.entries\<close> lists them; the keys of an object are
  distinct. \<^verbatim>\<open>Rules\<close> is modelled by the assignments \<^verbatim>\<open>rules[name] = ruleGroup\<close> that
  built it, in their order. The object \<^verbatim>\<open>rules\<close> is created by \<^verbatim>\<open>{}\<close>, so the
  assignment to the key \<^verbatim>\<open>__proto__\<close> does not give it a property: it makes the array
  \<^verbatim>\<open>ruleGroup\<close> its prototype. Hence \<^verbatim>\<open>Object.keys(rules)\<close> and
  \<^verbatim>\<open>Object.values(rules)\<close> leave that entry out, while \<^verbatim>\<open>rules["__proto__"]\<close> reads it.
\<close>

type_synonym specs = "(string \<times> spec list) list"
type_synonym rules = "(string \<times> rule list) list"

definition ownEntries :: "rules \<Rightarrow> rules" where
  "ownEntries rls = filter (\<lambda>(k, g). k \<noteq> ''__proto__'') rls"

definition objectKeys :: "rules \<Rightarrow> string list" where
  "objectKeys rls = map fst (ownEntries rls)"

definition objectValues :: "rules \<Rightarrow> rule list list" where
  "objectValues rls = map snd (ownEntries rls)"

text \<open>
  \<^verbatim>\<open>rules[k]\<close>: a key the object does not hold itself is looked up in its prototypes:
  in the array that is its prototype, if it was given one (the length, the indices and
  the properties of \<^verbatim>\<open>Array.prototype\<close>), and in \<^verbatim>\<open>Object.prototype\<close>. Those
  properties are neither \<^verbatim>\<open>null\<close> nor \<^verbatim>\<open>undefined\<close> nor iterable.
\<close>

datatype 'a property = Own 'a | Inherited | Undefined

definition objectPrototype :: "string list" where
  "objectPrototype =
     [''constructor'', ''__defineGetter__'', ''__defineSetter__'', ''hasOwnProperty'',
      ''__lookupGetter__'', ''__lookupSetter__'', ''isPrototypeOf'',
      ''propertyIsEnumerable'', ''toString'', ''valueOf'', ''__proto__'',
      ''toLocaleString'']"

definition arrayPrototype :: "string list" where
  "arrayPrototype =
     [''length'', ''constructor'', ''at'', ''concat'', ''copyWithin'', ''fill'', ''find'',
      ''findIndex'', ''findLast'', ''findLastIndex'', ''lastIndexOf'', ''pop'', ''push'',
      ''reverse'', ''shift'', ''unshift'', ''slice'', ''sort'', ''splice'', ''includes'',
      ''indexOf'', ''join'', ''keys'', ''entries'', ''values'', ''forEach'', ''filter'',
      ''flat'', ''flatMap'', ''map'', ''every'', ''some'', ''reduce'', ''reduceRight'',
      ''toLocaleString'', ''toString'', ''toReversed'', ''toSorted'', ''toSpliced'',
      ''with'']"

definition isDigit :: "char \<Rightarrow> bool" where
  "isDigit c = (c \<in> set ''0123456789'')"

text \<open>The key \<open>k\<close> is the index of an element of an array of length \<open>n\<close>: a decimal
  numeral without a leading zero, below \<open>n\<close>.\<close>

definition arrayIndex :: "string \<Rightarrow> nat \<Rightarrow> bool" where
  "arrayIndex k n =
     (case k of
        [] \<Rightarrow> False
      | c # cs \<Rightarrow>
          list_all isDigit k \<and> (cs = [] \<or> c \<noteq> CHR ''0'') \<and>
          foldl (\<lambda>v d. 10 * v + (of_char d - 48)) 0 k < n)"

definition inheritedKey :: "rules \<Rightarrow> string \<Rightarrow> bool" where
  "inheritedKey rls k =
     (k \<in> set objectPrototype \<or>
      (case map_of rls ''__proto__'' of
         None \<Rightarrow> False
       | Some g \<Rightarrow> k \<in> set arrayPrototype \<or> arrayIndex k (length g)))"

definition getGroup :: "rules \<Rightarrow> string \<Rightarrow> rule list property" where
  "getGroup rls k =
     (case map_of rls k of
        Some g \<Rightarrow> Own g
      | None \<Rightarrow> if inheritedKey rls k then Inherited else Undefined)"

fun buildGroup :: "spec list \<Rightarrow> string \<Rightarrow> error + rule list" where
  "buildGroup [] grp = Inr []"
| "buildGroup (sp # specGroup) grp =
     (case buildRule sp grp of
        Inl e \<Rightarrow> Inl e
      | Inr r \<Rightarrow>
          (case buildGroup specGroup grp of Inl e \<Rightarrow> Inl e | Inr rs \<Rightarrow> Inr (r # rs)))"

fun buildGroups :: "specs \<Rightarrow> error + rules" where
  "buildGroups [] = Inr []"
| "buildGroups ((grp, specGroup) # rest) =
     (case buildGroup specGroup grp of
        Inl e \<Rightarrow> Inl e
      | Inr rs \<Rightarrow>
          (case buildGroups rest of Inl e \<Rightarrow> Inl e | Inr gs \<Rightarrow> Inr ((grp, rs) # gs)))"

definition pushMissing :: "rules \<Rightarrow> rule \<Rightarrow> bool" where
  "pushMissing rls r =
     (case push r of
        None \<Rightarrow> False
      | Some p \<Rightarrow> (case getGroup rls p of Undefined \<Rightarrow> True | _ \<Rightarrow> False))"

text \<open>
  \<^verbatim>\<open>buildRules\<close>. The array \<^verbatim>\<open>ruleGroupAll\<close> is the entry of the group \<^verbatim>\<open>ALL\<close>
  itself, so the rule \<^verbatim>\<open>INVALID\<close> pushed to it last is in \<^verbatim>\<open>rules["ALL"]\<close> too. The
  push targets are checked in the groups of \<^verbatim>\<open>Object.values(rules)\<close>.
\<close>

definition buildRules :: "specs \<Rightarrow> error + (rules \<times> rule list)" where
  "buildRules sps =
     (case buildGroups sps of
        Inl e \<Rightarrow> Inl e
      | Inr gs \<Rightarrow>
          (let grpAll = (case map_of gs ''ALL'' of Some g \<Rightarrow> g | None \<Rightarrow> []) @ [INVALID];
               rls = map (\<lambda>(grp, g). (grp, if grp = ''ALL'' then grpAll else g)) gs
           in if list_ex (list_ex (pushMissing rls)) (objectValues rls)
              then Inl LexError
              else Inr (rls, grpAll)))"

text \<open>The compiled lexer: the fields \<^verbatim>\<open>specs\<close>, \<^verbatim>\<open>rules\<close> and \<^verbatim>\<open>dbg\<close> of the
  type \<^verbatim>\<open>Lexer\<close> and the variables \<^verbatim>\<open>ruleGroupAll\<close> and \<^verbatim>\<open>start\<close> its functions
  close over.\<close>

record lexer =
  specs :: specs
  rules :: rules
  ruleGroupAll :: "rule list"
  start :: string
  dbg :: bool

definition compileLexer :: "specs \<Rightarrow> bool \<Rightarrow> error + lexer" where
  "compileLexer sps opt =
     (case buildRules sps of
        Inl e \<Rightarrow> Inl e
      | Inr (rls, grpAll) \<Rightarrow>
          (case objectKeys rls of
             [] \<Rightarrow> Inl LexError
           | st # _ \<Rightarrow>
               Inr \<lparr>specs = sps, rules = rls, ruleGroupAll = grpAll, start = st,
                    dbg = opt\<rparr>))"

text \<open>The getter and the setter of \<^verbatim>\<open>dbg\<close>. The body of the setter is the expression
  \<^verbatim>\<open>opt ? dbgEnabled : dbgDisabled\<close>, which assigns nothing.\<close>

definition get_dbg :: "lexer \<Rightarrow> bool" where
  "get_dbg L = dbg L"

definition set_dbg :: "bool \<Rightarrow> lexer \<Rightarrow> lexer" where
  "set_dbg opt L = L"

subsection \<open>The scan engine\<close>

text \<open>
  Modelled from the spec: \<^verbatim>\<open>createPosQuery\<close> of \<^verbatim>\<open>./pos.ts\<close>, which is not among the
  sources. The spec calls it a pure function that maps an offset of the text to a line and
  a column, both at least 1. Here lines are separated by line feeds.
\<close>

definition createPosQuery :: "string \<Rightarrow> nat \<Rightarrow> nat \<times> nat" where
  "createPosQuery s offset =
     (let pre = take offset s
      in (1 + length (filter (\<lambda>c. c = CHR 0x0A) pre),
          1 + length (takeWhile (\<lambda>c. c \<noteq> CHR 0x0A) (rev pre))))"

text \<open>\<^verbatim>\<open>makeToken(data, text, offset)\<close> inside \<^verbatim>\<open>lex(s, stack)\<close>; \<open>grp\<close> and \<open>nm\<close>
  are the fields \<^verbatim>\<open>group\<close> and \<^verbatim>\<open>name\<close> of \<^verbatim>\<open>data\<close>.\<close>

definition makeToken :: "string \<Rightarrow> string \<Rightarrow> string \<Rightarrow> string \<Rightarrow> nat \<Rightarrow> token" where
  "makeToken s grp nm txt offset =
     (case createPosQuery s offset of
        (l, c) \<Rightarrow>
          \<lparr>tk_name = nm, tk_group = grp, tk_text = txt, tk_offset = offset, tk_line = l,
           tk_column = c\<rparr>)"

text \<open>
  The \<^verbatim>\<open>for\<close> loop over the rules of \<^verbatim>\<open>ruleGroup\<close> at one offset. Both
  \<^verbatim>\<open>continue\<close> statements go on with the next rule at the same offset. The result is
  the token to yield, the new offset and the rule that matched; \<open>None\<close> when the loop
  runs out of rules.
\<close>

fun tryRules :: "string \<Rightarrow> nat \<Rightarrow> rule list \<Rightarrow> (token \<times> nat \<times> rule) option" where
  "tryRules s offset [] = None"
| "tryRules s offset (r # ruleGroup) =
     (case exec (rx r) s offset of
        None \<Rightarrow> tryRules s offset ruleGroup
      | Some m \<Rightarrow>
          if m = [] then tryRules s offset ruleGroup
          else (case action r (makeToken s (group r) (name r) m offset) of
                  None \<Rightarrow> tryRules s offset ruleGroup
                | Some tok \<Rightarrow> Some (tok, offset + length m, r)))"

text \<open>The statements after \<^verbatim>\<open>yield token\<close>: \<^verbatim>\<open>stack.shift()\<close> when the rule
  pops, then \<^verbatim>\<open>stack.unshift(rule.push)\<close> when \<^verbatim>\<open>rule.push\<close> is truthy, that is
  neither \<^verbatim>\<open>null\<close> nor the empty string.\<close>

definition transition :: "rule \<Rightarrow> string list \<Rightarrow> string list" where
  "transition r stack =
     (let popped = (if pop r then tl stack else stack)
      in case push r of
           None \<Rightarrow> popped
         | Some p \<Rightarrow> if p = [] then popped else p # popped)"

text \<open>
  The states in which the generator \<^verbatim>\<open>lex(s, stack)\<close> is suspended: before the head of
  the \<^verbatim>\<open>while\<close> loop with an offset and a stack, at the last \<^verbatim>\<open>yield\<close>, and
  completed. A generator suspended at the \<^verbatim>\<open>yield\<close> inside the loop has only its
  transition to make before it is at the head of the loop again; nothing else reads the
  stack, so that state is recorded with the transition made.
\<close>

datatype gen = Scanning nat "string list" | AfterFinal | Completed

text \<open>The result of \<^verbatim>\<open>tokenGenerator.next()\<close>: a value, \<^verbatim>\<open>done\<close>, or an exception.\<close>

datatype 'a iter = Value 'a | Done | Thrown error

definition finalToken :: "string \<Rightarrow> nat \<Rightarrow> token" where
  "finalToken s offset = makeToken s ''FINAL'' ''FINAL'' [] offset"

text \<open>
  The \<^verbatim>\<open>while\<close> loop of \<^verbatim>\<open>lex\<close>, run until the generator yields or throws
  (\<open>lex\<close> is a constant of HOL already, hence the name \<open>lex_gen\<close>).
  \<^verbatim>\<open>assertDefined(curr)\<close> throws an \<^verbatim>\<open>InternalError\<close>; spreading an inherited
  property, which is not iterable, throws a \<^verbatim>\<open>TypeError\<close>. When the \<^verbatim>\<open>for\<close> loop
  runs out of rules the \<^verbatim>\<open>while\<close> loop goes round again.
\<close>

partial_function (option) lex_gen :: "lexer \<Rightarrow> string \<Rightarrow> nat \<Rightarrow> string list \<Rightarrow> (token iter \<times> gen) option" where
  "lex_gen L s offset stack =
     (if offset < length s
      then (case stack of
              [] \<Rightarrow> Some (Value (finalToken s offset), AfterFinal)
            | currLexer # _ \<Rightarrow>
                (case getGroup (rules L) currLexer of
                   Undefined \<Rightarrow> Some (Thrown InternalError, Completed)
                 | Inherited \<Rightarrow> Some (Thrown TypeError, Completed)
                 | Own cur \<Rightarrow>
                     (case tryRules s offset (cur @ ruleGroupAll L) of
                        None \<Rightarrow> lex_gen L s offset stack
                      | Some (tok, offset', r) \<Rightarrow>
                          Some (Value tok, Scanning offset' (transition r stack)))))
      else Some (Value (finalToken s offset), AfterFinal))"

definition generatorNext :: "lexer \<Rightarrow> string \<Rightarrow> gen \<Rightarrow> (token iter \<times> gen) option" where
  "generatorNext L s g =
     (case g of
        Scanning offset stack \<Rightarrow> lex_gen L s offset stack
      | AfterFinal \<Rightarrow> Some (Done, Completed)
      | Completed \<Rightarrow> Some (Done, Completed))"

text \<open>\<^verbatim>\<open>tokenizerBuilder(s, opt)\<close> assigns \<^verbatim>\<open>dbg\<close> and starts the generator
  \<^verbatim>\<open>lex(s, [ start ])\<close>.\<close>

definition tokenizerBuilder :: "lexer \<Rightarrow> string \<Rightarrow> bool \<Rightarrow> lexer \<times> gen" where
  "tokenizerBuilder L s opt = (L\<lparr>dbg := opt\<rparr>, Scanning 0 [start L])"

definition nextToken :: "lexer \<Rightarrow> string \<Rightarrow> gen \<Rightarrow> ((error + token) \<times> gen) option" where
  "nextToken L s g =
     (case generatorNext L s g of
        None \<Rightarrow> None
      | Some (Done, g') \<Rightarrow> Some (Inl LexEndedError, g')
      | Some (Thrown e, g') \<Rightarrow> Some (Inl e, g')
      | Some (Value tok, g') \<Rightarrow> Some (Inr tok, g'))"

text \<open>Iterating the tokenizer to its end (\<^verbatim>\<open>for (const token of tokenizer)\<close>): the
  tokens in the order they are yielded, and the exception that ended the iteration, if
  one did.\<close>

partial_function (option) iterate :: "lexer \<Rightarrow> string \<Rightarrow> gen \<Rightarrow> (token list \<times> error option) option" where
  "iterate L s g =
     (case generatorNext L s g of
        None \<Rightarrow> None
      | Some (Done, _) \<Rightarrow> Some ([], None)
      | Some (Thrown e, _) \<Rightarrow> Some ([], Some e)
      | Some (Value tok, g') \<Rightarrow>
          Option.bind (iterate L s g') (\<lambda>(toks, e). Some (tok # toks, e)))"

text \<open>\<^verbatim>\<open>compileLexer(specs).tokenizerBuilder(s)\<close>, iterated.\<close>

definition tokenize :: "specs \<Rightarrow> string \<Rightarrow> error + (token list \<times> error option) option" where
  "tokenize sps s =
     (case compileLexer sps False of
        Inl e \<Rightarrow> Inl e
      | Inr L \<Rightarrow> Inr (iterate L s (snd (tokenizerBuilder L s False))))"

text \<open>The situation in which the \<^verbatim>\<open>while\<close> loop goes round without a change: the
  offset is inside the text, the group on top of the stack has rules, and the \<^verbatim>\<open>for\<close>
  loop runs out of them.\<close>

definition stuck :: "lexer \<Rightarrow> string \<Rightarrow> nat \<Rightarrow> string list \<Rightarrow> bool" where
  "stuck L s offset stack =
     (offset < length s \<and>
      (case stack of
         [] \<Rightarrow> False
       | currLexer # _ \<Rightarrow>
           (case getGroup (rules L) currLexer of
              Own cur \<Rightarrow> tryRules s offset (cur @ ruleGroupAll L) = None
            | _ \<Rightarrow> False)))"

subsection \<open>Example specifications\<close>

text \<open>The patterns \<^verbatim>\<open>/\d+/vy\<close> and \<^verbatim>\<open>/ +/vy\<close>, an action that returns
  \<^verbatim>\<open>null\<close>, and the specs \<^verbatim>\<open>{ main: [["NUM", /\d+/vy], ["WS", / +/vy, () => null]] }\<close>
  with the lexer compiled from them.\<close>

definition rxDigits :: regexp where
  "rxDigits = \<lparr>source = backslash # ''d+'', flags = ''vy'', matcher = oneOrMore isDigit\<rparr>"

definition rxSpaces :: regexp where
  "rxSpaces = \<lparr>source = '' +'', flags = ''vy'', matcher = oneOrMore (\<lambda>c. c = CHR 0x20)\<rparr>"

definition skipAction :: action where
  "skipAction tok = None"

definition scenarioSpecs :: specs where
  "scenarioSpecs =
     [(''main'', [RegExpSpec ''NUM'' rxDigits None, RegExpSpec ''WS'' rxSpaces (Some skipAction)])]"

definition ruleNUM :: rule where
  "ruleNUM = \<lparr>name = ''NUM'', rx = rxDigits, action = identityAction, group = ''main'',
     push = None, pop = False\<rparr>"

definition ruleWS :: rule where
  "ruleWS = \<lparr>name = ''WS'', rx = rxSpaces, action = skipAction, group = ''main'',
     push = None, pop = False\<rparr>"

definition scenarioLexer :: lexer where
  "scenarioLexer = \<lparr>specs = scenarioSpecs, rules = [(''main'', [ruleNUM, ruleWS])],
     ruleGroupAll = [INVALID], start = ''main'', dbg = False\<rparr>"

text \<open>The specs \<^verbatim>\<open>{ main: [["NUM", /\d+/vy]] }\<close> and their lexer.\<close>

definition digitsSpecs :: specs where
  "digitsSpecs = [(''main'', [RegExpSpec ''NUM'' rxDigits None])]"

definition digitsLexer :: lexer where
  "digitsLexer = \<lparr>specs = digitsSpecs, rules = [(''main'', [ruleNUM])],
     ruleGroupAll = [INVALID], start = ''main'', dbg = False\<rparr>"

text \<open>The tokens of an iteration that was compiled and ran to its end, and the three fields
  of a token the scenarios of the specification give.\<close>

fun tokensOf :: "error + (token list \<times> error option) option \<Rightarrow> token list" where
  "tokensOf (Inr (Some (toks, e))) = toks"
| "tokensOf _ = []"

definition nameTextOffset :: "token \<Rightarrow> string \<times> string \<times> nat" where
  "nameTextOffset tok = (tk_name tok, tk_text tok, tk_offset tok)"

text \<open>The specs \<^verbatim>\<open>{ main: [["WS", / +/vy, () => null]], ALL: [["SP", / +/vy]] }\<close> and
  their lexer.\<close>

definition ruleSP :: rule where
  "ruleSP = \<lparr>name = ''SP'', rx = rxSpaces, action = identityAction, group = ''ALL'',
     push = None, pop = False\<rparr>"

definition skipSpecs :: specs where
  "skipSpecs =
     [(''main'', [RegExpSpec ''WS'' rxSpaces (Some skipAction)]),
      (''ALL'', [RegExpSpec ''SP'' rxSpaces None])]"

definition skipLexer :: lexer where
  "skipLexer = \<lparr>specs = skipSpecs,
     rules = [(''main'', [ruleWS]), (''ALL'', [ruleSP, INVALID])],
     ruleGroupAll = [ruleSP, INVALID], start = ''main'', dbg = False\<rparr>"

text \<open>The specs \<^verbatim>\<open>{ main: [["a", POP]] }\<close> and their lexer.\<close>

definition ruleA :: rule where
  "ruleA = \<lparr>name = ''a'',
     rx = \<lparr>source = ''a'', flags = ''vy'', matcher = literalMatcher ''a''\<rparr>,
     action = identityAction, group = ''main'', push = None, pop = True\<rparr>"

definition popSpecs :: specs where
  "popSpecs = [(''main'', [StringPopSpec ''a'' None])]"

definition popLexer :: lexer where
  "popLexer = \<lparr>specs = popSpecs, rules = [(''main'', [ruleA])],
     ruleGroupAll = [INVALID], start = ''main'', dbg = False\<rparr>"

text \<open>The specs \<^verbatim>\<open>{ main: [["NUM", /\d+/y]] }\<close>: a sticky pattern without the flag
  \<^verbatim>\<open>v\<close>.\<close>

definition stickySpecs :: specs where
  "stickySpecs = [(''main'', [RegExpSpec ''NUM'' (rxDigits\<lparr>flags := ''y''\<rparr>) None])]"

text \<open>The specs \<^verbatim>\<open>{ main: [["q", "str"]], str: [["e", POP]] }\<close>, whose push target is
  a group of the table, and the specs \<^verbatim>\<open>{ main: [["q", "nope"]] }\<close>, whose push target
  is not.\<close>

definition pushSpecs :: specs where
  "pushSpecs =
     [(''main'', [StringPushSpec ''q'' ''str'' None]), (''str'', [StringPopSpec ''e'' None])]"

definition lostPushSpecs :: specs where
  "lostPushSpecs = [(''main'', [StringPushSpec ''q'' ''nope'' None])]"

subsection \<open>Notions of the specification\<close>

text \<open>A rule matches at an offset when its pattern matches a non-empty text there; it
  yields when moreover its action returns a token.\<close>

definition matches :: "string \<Rightarrow> nat \<Rightarrow> rule \<Rightarrow> bool" where
  "matches s offset r = (case exec (rx r) s offset of None \<Rightarrow> False | Some m \<Rightarrow> m \<noteq> [])"

definition yields :: "string \<Rightarrow> nat \<Rightarrow> rule \<Rightarrow> bool" where
  "yields s offset r =
     (case exec (rx r) s offset of
        None \<Rightarrow> False
      | Some m \<Rightarrow> m \<noteq> [] \<and> action r (makeToken s (group r) (name r) m offset) \<noteq> None)"

text \<open>The specs declared in the group \<^verbatim>\<open>ALL\<close>, and all specs of a table.\<close>

definition allSpecs :: "specs \<Rightarrow> spec list" where
  "allSpecs sps = (case map_of sps ''ALL'' of None \<Rightarrow> [] | Some specGroup \<Rightarrow> specGroup)"

definition specsOf :: "specs \<Rightarrow> spec list" where
  "specsOf sps = concat (map snd sps)"

text \<open>
  What the compile contract excludes, as the code checks it: an empty table, a pattern
  whose flags are not exactly \<^verbatim>\<open>vy\<close>, a push target that is not a group of the table.
\<close>

definition badFlags :: "spec \<Rightarrow> bool" where
  "badFlags sp = (case asRx (at sp 1) of None \<Rightarrow> False | Some r \<Rightarrow> flags r \<noteq> ''vy'')"

definition unknownPush :: "specs \<Rightarrow> spec \<Rightarrow> bool" where
  "unknownPush sps sp =
     (case specPush sp of None \<Rightarrow> False | Some p \<Rightarrow> p \<notin> set (map fst sps))"

definition excluded :: "specs \<Rightarrow> bool" where
  "excluded sps =
     (sps = [] \<or> list_ex badFlags (specsOf sps) \<or> list_ex (unknownPush sps) (specsOf sps))"

text \<open>
  The specs for which the compile contract is stated: a literal string holds no character
  that \<^verbatim>\<open>rxEsc\<close> escapes and the flag \<^verbatim>\<open>v\<close> does not let escape, the flags of a
  pattern hold no slash (they are flag letters), and no push target is the name of a
  property of \<^verbatim>\<open>Object.prototype\<close>.
\<close>

definition plainLiteral :: "string \<Rightarrow> bool" where
  "plainLiteral str = list_all (\<lambda>c. identityEscape c \<or> \<not> rxEscChar c) str"

definition regularSpec :: "spec \<Rightarrow> bool" where
  "regularSpec sp =
     ((case asRx (at sp 1) of
         None \<Rightarrow> plainLiteral (specName sp)
       | Some r \<Rightarrow> CHR ''/'' \<notin> set (flags r)) \<and>
      (case specPush sp of None \<Rightarrow> True | Some p \<Rightarrow> p \<notin> set objectPrototype))"

text \<open>A spec with the identity action that does not pop and pushes, if anything, the
  group \<open>c\<close>; a text without line terminators.\<close>

definition identitySpec :: "string \<Rightarrow> spec \<Rightarrow> bool" where
  "identitySpec c sp =
     (specAction sp = identityAction \<and> \<not> specPop sp \<and>
      (specPush sp = None \<or> specPush sp = Some c))"

definition oneLine :: "string \<Rightarrow> bool" where
  "oneLine s = (\<not> list_ex lineTerminator s)"

text \<open>The compiled form of such a spec.\<close>

definition plainRule :: "string \<Rightarrow> rule \<Rightarrow> bool" where
  "plainRule c r =
     (action r = identityAction \<and> \<not> pop r \<and> (push r = None \<or> push r = Some c))"

section \<open>Properties\<close>

subsection \<open>The loop of the generator\<close>

text \<open>A call of \<open>lex_gen\<close> that returns did not start in a stuck situation: there the
  loop goes round for ever.\<close>

lemma lex_gen_not_stuck:
  assumes "lex_gen L s offset stack = Some y"
  shows "\<not> stuck L s offset stack"
proof (rule lex_gen.raw_induct[where P = "\<lambda>L s offset stack y. \<not> stuck L s offset stack", OF _ assms])
  fix lex' :: "lexer \<Rightarrow> string \<Rightarrow> nat \<Rightarrow> string list \<Rightarrow> (token iter \<times> gen) option"
    and L s offset stack y
  assume IH: "\<And>L s offset stack y. lex' L s offset stack = Some y \<Longrightarrow> \<not> stuck L s offset stack"
    and body: "(if offset < length s
      then (case stack of
              [] \<Rightarrow> Some (Value (finalToken s offset), AfterFinal)
            | currLexer # _ \<Rightarrow>
                (case getGroup (rules L) currLexer of
                   Undefined \<Rightarrow> Some (Thrown InternalError, Completed)
                 | Inherited \<Rightarrow> Some (Thrown TypeError, Completed)
                 | Own cur \<Rightarrow>
                     (case tryRules s offset (cur @ ruleGroupAll L) of
                        None \<Rightarrow> lex' L s offset stack
                      | Some (tok, offset', r) \<Rightarrow>
                          Some (Value tok, Scanning offset' (transition r stack)))))
      else Some (Value (finalToken s offset), AfterFinal)) = Some y"
  show "\<not> stuck L s offset stack"
  proof
    assume st: "stuck L s offset stack"
    then have "lex' L s offset stack = Some y"
      using body by (auto simp: stuck_def split: list.splits property.splits)
    from IH[OF this] st show False by simp
  qed
qed

lemma lex_gen_stuck: "stuck L s offset stack \<Longrightarrow> lex_gen L s offset stack = None"
  using lex_gen_not_stuck[of L s offset stack] by (cases "lex_gen L s offset stack") auto

text \<open>Hence \<open>lex_gen\<close> without recursion: it never returns exactly when it is stuck.\<close>

lemma lex_gen_eq:
  "lex_gen L s offset stack =
     (if offset < length s
      then (case stack of
              [] \<Rightarrow> Some (Value (finalToken s offset), AfterFinal)
            | currLexer # _ \<Rightarrow>
                (case getGroup (rules L) currLexer of
                   Undefined \<Rightarrow> Some (Thrown InternalError, Completed)
                 | Inherited \<Rightarrow> Some (Thrown TypeError, Completed)
                 | Own cur \<Rightarrow>
                     (case tryRules s offset (cur @ ruleGroupAll L) of
                        None \<Rightarrow> None
                      | Some (tok, offset', r) \<Rightarrow>
                          Some (Value tok, Scanning offset' (transition r stack)))))
      else Some (Value (finalToken s offset), AfterFinal))"
proof (cases "stuck L s offset stack")
  case True
  then show ?thesis
    by (auto simp: lex_gen_stuck stuck_def split: list.splits property.splits)
next
  case False
  then show ?thesis
    by (subst lex_gen.simps) (auto simp: stuck_def split: list.splits property.splits option.splits)
qed

lemma generatorNext_AfterFinal: "generatorNext L s AfterFinal = Some (Done, Completed)"
  by (simp add: generatorNext_def)

lemma generatorNext_Completed: "generatorNext L s Completed = Some (Done, Completed)"
  by (simp add: generatorNext_def)

lemma iterate_AfterFinal: "iterate L s AfterFinal = Some ([], None)"
  by (subst iterate.simps) (simp add: generatorNext_AfterFinal)

lemma iterate_never: "generatorNext L s g = None \<Longrightarrow> iterate L s g = None"
  by (subst iterate.simps) simp

lemma iterate_Value:
  "generatorNext L s g = Some (Value tok, g') \<Longrightarrow>
   iterate L s g = Option.bind (iterate L s g') (\<lambda>(toks, e). Some (tok # toks, e))"
  by (subst iterate.simps) simp

lemma iterate_Thrown: "generatorNext L s g = Some (Thrown e, g') \<Longrightarrow> iterate L s g = Some ([], Some e)"
  by (subst iterate.simps) simp

lemma tryRules_append:
  "tryRules s offset (xs @ ys) =
     (case tryRules s offset xs of None \<Rightarrow> tryRules s offset ys | Some y \<Rightarrow> Some y)"
  by (induction xs) (auto split: option.splits)

subsection \<open>The example lexers\<close>

lemma scenario_compiled: "compileLexer scenarioSpecs False = Inr scenarioLexer"
  by (simp add: compileLexer_def buildRules_def objectValues_def objectKeys_def ownEntries_def
      Let_def scenarioSpecs_def scenarioLexer_def buildRule_def
      asRx_def at_def rxDigits_def rxSpaces_def toString_def endsWith_def specAction_def specPush_def
      specPop_def pushMissing_def INVALID_def ruleNUM_def ruleWS_def)

lemma digits_compiled: "compileLexer digitsSpecs False = Inr digitsLexer"
  by (simp add: compileLexer_def buildRules_def objectValues_def objectKeys_def ownEntries_def
      Let_def digitsSpecs_def digitsLexer_def buildRule_def
      asRx_def at_def rxDigits_def toString_def endsWith_def specAction_def specPush_def
      specPop_def pushMissing_def INVALID_def ruleNUM_def)

lemmas eval_defs = generatorNext_def lex_gen_eq getGroup_def exec_def oneOrMore_def
  makeToken_def createPosQuery_def finalToken_def transition_def identityAction_def
  skipAction_def isDigit_def lineTerminator_def INVALID_def ruleNUM_def ruleWS_def
  rxDigits_def rxSpaces_def scenarioLexer_def digitsLexer_def

lemma scenario_step0:
  "generatorNext scenarioLexer ''12 34'' (Scanning 0 [''main'']) =
    Some (Value \<lparr>tk_name = ''NUM'', tk_group = ''main'', tk_text = ''12'', tk_offset = 0,
     tk_line = 1, tk_column = 1\<rparr>, Scanning 2 [''main''])"
  by (simp add: eval_defs)

lemma scenario_step2:
  "generatorNext scenarioLexer ''12 34'' (Scanning 2 [''main'']) =
    Some (Value \<lparr>tk_name = ''INVALID'', tk_group = ''ALL'', tk_text = '' 34'', tk_offset = 2,
     tk_line = 1, tk_column = 3\<rparr>, Scanning 5 [])"
  by (simp add: eval_defs)

lemma scenario_step3:
  "generatorNext scenarioLexer ''12 34'' (Scanning 3 [''main'']) =
    Some (Value \<lparr>tk_name = ''NUM'', tk_group = ''main'', tk_text = ''34'', tk_offset = 3,
     tk_line = 1, tk_column = 4\<rparr>, Scanning 5 [''main''])"
  by (simp add: eval_defs)

lemma scenario_step5:
  "generatorNext scenarioLexer ''12 34'' (Scanning 5 []) =
    Some (Value \<lparr>tk_name = ''FINAL'', tk_group = ''FINAL'', tk_text = [], tk_offset = 5,
     tk_line = 1, tk_column = 6\<rparr>, AfterFinal)"
  by (simp add: eval_defs)

lemma scenario_iterate:
  "iterate scenarioLexer ''12 34'' (Scanning 0 [''main'']) = Some (
  [\<lparr>tk_name = ''NUM'', tk_group = ''main'', tk_text = ''12'', tk_offset = 0, tk_line = 1,
     tk_column = 1\<rparr>,
   \<lparr>tk_name = ''INVALID'', tk_group = ''ALL'', tk_text = '' 34'', tk_offset = 2, tk_line = 1,
     tk_column = 3\<rparr>,
   \<lparr>tk_name = ''FINAL'', tk_group = ''FINAL'', tk_text = [], tk_offset = 5, tk_line = 1,
     tk_column = 6\<rparr>], None)"
  by (simp add: iterate_Value[OF scenario_step0] iterate_Value[OF scenario_step2]
      iterate_Value[OF scenario_step5] iterate_AfterFinal)

lemma scenario_start: "snd (tokenizerBuilder scenarioLexer s opt) = Scanning 0 [''main'']"
  by (simp add: tokenizerBuilder_def scenarioLexer_def)

lemma digits_start: "snd (tokenizerBuilder digitsLexer s opt) = Scanning 0 [''main'']"
  by (simp add: tokenizerBuilder_def digitsLexer_def)

lemma digits_line_feed: "generatorNext digitsLexer [CHR 0x0A] (Scanning 0 [''main'']) = None"
  by (simp add: eval_defs)

subsection \<open>The scenario of the specification\<close>

text \<open>
  Against claim C1 as it is stated: for the specs with the rule \<^verbatim>\<open>NUM\<close> for digits and the
  rule \<^verbatim>\<open>WS\<close> for spaces whose action returns \<^verbatim>\<open>null\<close>, the tokens of \<^verbatim>\<open>"12 34"\<close>
  are not \<^verbatim>\<open>NUM "12"\<close> at 0, \<^verbatim>\<open>NUM "34"\<close> at 3 and \<^verbatim>\<open>FINAL ""\<close> at 5.
\<close>

theorem scenario_not_as_specified:
  "map nameTextOffset (tokensOf (tokenize scenarioSpecs ''12 34'')) \<noteq>
     [(''NUM'', ''12'', 0), (''NUM'', ''34'', 3), (''FINAL'', [], 5)]"
  by (simp add: tokenize_def scenario_compiled scenario_start scenario_iterate nameTextOffset_def)

text \<open>
  Claim C1, amended: for these specs the tokens of \<^verbatim>\<open>"12 34"\<close> are exactly
  \<^verbatim>\<open>NUM "12"\<close> at offset 0, \<^verbatim>\<open>INVALID " 34"\<close> at offset 2 (of the group \<^verbatim>\<open>ALL\<close>) and
  \<^verbatim>\<open>FINAL ""\<close> at offset 5: the rule \<^verbatim>\<open>WS\<close> is skipped at offset 2, where the rule for
  unexpected text matches the rest of the line.
\<close>

theorem scenario_tokens:
  "tokenize scenarioSpecs ''12 34'' = Inr (Some (
  [\<lparr>tk_name = ''NUM'', tk_group = ''main'', tk_text = ''12'', tk_offset = 0, tk_line = 1,
     tk_column = 1\<rparr>,
   \<lparr>tk_name = ''INVALID'', tk_group = ''ALL'', tk_text = '' 34'', tk_offset = 2, tk_line = 1,
     tk_column = 3\<rparr>,
   \<lparr>tk_name = ''FINAL'', tk_group = ''FINAL'', tk_text = [], tk_offset = 5, tk_line = 1,
     tk_column = 6\<rparr>], None))"
  by (simp add: tokenize_def scenario_compiled scenario_start scenario_iterate)

subsection \<open>An action that returns null\<close>

text \<open>
  Against claim C2 as it is stated: at offset 2 of \<^verbatim>\<open>"12 34"\<close> the rule \<^verbatim>\<open>WS\<close> matches
  one space and its action returns \<^verbatim>\<open>null\<close>, yet the step yields a token that starts at
  offset 2, made by a later rule, empties the stack, and is not the step taken from
  offset 3.
\<close>

theorem skip_does_not_consume:
  "exec (rx ruleWS) ''12 34'' 2 = Some '' '' \<and>
   action ruleWS (makeToken ''12 34'' (group ruleWS) (name ruleWS) '' '' 2) = None \<and>
   generatorNext scenarioLexer ''12 34'' (Scanning 2 [''main'']) =
     Some (Value \<lparr>tk_name = ''INVALID'', tk_group = ''ALL'', tk_text = '' 34'', tk_offset = 2,
       tk_line = 1, tk_column = 3\<rparr>, Scanning 5 []) \<and>
   generatorNext scenarioLexer ''12 34'' (Scanning 2 [''main'']) \<noteq>
     generatorNext scenarioLexer ''12 34'' (Scanning (2 + length '' '') [''main''])"
proof -
  have h5: "exec (rx ruleWS) ''12 34'' 2 = Some '' ''"
    by (simp add: exec_def ruleWS_def rxSpaces_def oneOrMore_def)
  have h7: "action ruleWS (makeToken ''12 34'' (group ruleWS) (name ruleWS) '' '' 2) = None"
    by (simp add: ruleWS_def skipAction_def)
  have "generatorNext scenarioLexer ''12 34'' (Scanning 2 [''main'']) \<noteq>
     generatorNext scenarioLexer ''12 34'' (Scanning (2 + length '' '') [''main''])"
    using scenario_step3 by (simp add: scenario_step2)
  with h5 h7 scenario_step2 show ?thesis by blast
qed

text \<open>
  Claim C2, amended: when a rule matches a non-empty text at the current offset and its
  action returns \<^verbatim>\<open>null\<close>, no token is made of that match, the offset and the stack stay
  as they are, and the step goes on with the rules after it at the same offset: its
  outcome is that of the remaining rules.
\<close>

theorem skip_tries_next_rule:
  assumes "offset < length s"
    and "getGroup (rules L) c = Own cur"
    and "cur @ ruleGroupAll L = before @ r # rest"
    and "tryRules s offset before = None"
    and "exec (rx r) s offset = Some m"
    and "m \<noteq> []"
    and "action r (makeToken s (group r) (name r) m offset) = None"
  shows "lex_gen L s offset (c # stack) =
     (case tryRules s offset rest of
        None \<Rightarrow> None
      | Some (tok, offset', r') \<Rightarrow> Some (Value tok, Scanning offset' (transition r' (c # stack))))"
proof -
  have "tryRules s offset (before @ r # rest) = tryRules s offset rest"
    using assms(4-7) by (simp add: tryRules_append)
  with assms(1-3) show ?thesis by (simp add: lex_gen_eq)
qed

theorem skip_tries_next_rule_witness:
  "2 < length ''12 34'' \<and> getGroup (rules scenarioLexer) ''main'' = Own [ruleNUM, ruleWS] \<and>
   [ruleNUM, ruleWS] @ ruleGroupAll scenarioLexer = [ruleNUM] @ ruleWS # [INVALID] \<and>
   tryRules ''12 34'' 2 [ruleNUM] = None \<and>
   exec (rx ruleWS) ''12 34'' 2 = Some '' '' \<and> '' '' \<noteq> [] \<and>
   action ruleWS (makeToken ''12 34'' (group ruleWS) (name ruleWS) '' '' 2) = None \<and>
   lex_gen scenarioLexer ''12 34'' 2 [''main''] =
     (case tryRules ''12 34'' 2 [INVALID] of
        None \<Rightarrow> None
      | Some (tok, offset', r') \<Rightarrow> Some (Value tok, Scanning offset' (transition r' [''main''])))"
proof -
  have h1: "2 < length ''12 34''" by simp
  have h2: "getGroup (rules scenarioLexer) ''main'' = Own [ruleNUM, ruleWS]"
    by (simp add: getGroup_def scenarioLexer_def)
  have h3: "[ruleNUM, ruleWS] @ ruleGroupAll scenarioLexer = [ruleNUM] @ ruleWS # [INVALID]"
    by (simp add: scenarioLexer_def)
  have h4: "tryRules ''12 34'' 2 [ruleNUM] = None"
    by (simp add: exec_def ruleNUM_def rxDigits_def oneOrMore_def isDigit_def)
  have h5: "exec (rx ruleWS) ''12 34'' 2 = Some '' ''"
    by (simp add: exec_def ruleWS_def rxSpaces_def oneOrMore_def)
  have h6: "'' '' \<noteq> []" by simp
  have h7: "action ruleWS (makeToken ''12 34'' (group ruleWS) (name ruleWS) '' '' 2) = None"
    by (simp add: ruleWS_def skipAction_def)
  from skip_tries_next_rule[OF h1 h2 h3 h4 h5 h6 h7, of "[]"] h1 h2 h3 h4 h5 h6 h7
  show ?thesis by simp
qed

subsection \<open>A line terminator no rule matches\<close>

text \<open>
  For claim C3 (every scan ends, after at most as many steps as the text is long): with
  the specs \<^verbatim>\<open>{ main: [["NUM", /\d+/vy]] }\<close> the text of one line feed compiles and the
  iteration of its tokenizer never returns.
\<close>

theorem line_feed_scan_never_returns:
  "tokenize digitsSpecs [CHR 0x0A] = Inr None"
  by (simp add: tokenize_def digits_compiled digits_start iterate_never[OF digits_line_feed])

text \<open>
  For claim C4 (at every offset inside the text the rule for unexpected text matches, and
  running out of rules would be an internal fault): at the line feed the rule
  \<^verbatim>\<open>INVALID\<close> does not match, the \<^verbatim>\<open>for\<close> loop runs out of rules, and the generator
  neither yields nor throws.
\<close>

theorem catch_all_fails_at_line_feed:
  "compileLexer digitsSpecs False = Inr digitsLexer \<and>
   getGroup (rules digitsLexer) ''main'' = Own [ruleNUM] \<and>
   exec (rx INVALID) [CHR 0x0A] 0 = None \<and>
   tryRules [CHR 0x0A] 0 ([ruleNUM] @ ruleGroupAll digitsLexer) = None \<and>
   stuck digitsLexer [CHR 0x0A] 0 [''main''] \<and>
   lex_gen digitsLexer [CHR 0x0A] 0 [''main''] = None"
proof -
  have a: "getGroup (rules digitsLexer) ''main'' = Own [ruleNUM]"
    by (simp add: getGroup_def digitsLexer_def)
  have b: "exec (rx INVALID) [CHR 0x0A] 0 = None"
    by (simp add: exec_def INVALID_def oneOrMore_def lineTerminator_def)
  have c: "tryRules [CHR 0x0A] 0 ([ruleNUM] @ ruleGroupAll digitsLexer) = None"
    using b by (simp add: digitsLexer_def exec_def ruleNUM_def rxDigits_def oneOrMore_def isDigit_def)
  have d: "stuck digitsLexer [CHR 0x0A] 0 [''main'']"
    using a c by (simp add: stuck_def)
  from digits_compiled a b c d lex_gen_stuck[OF d] show ?thesis by blast
qed

text \<open>
  For claim C7 (every stream of tokens ends with one \<^verbatim>\<open>FINAL\<close> token): on the text
  \<^verbatim>\<open>"1\n"\<close> the first call of \<^verbatim>\<open>nextToken\<close> returns the token \<^verbatim>\<open>NUM\<close> and the
  second call never returns, so no \<^verbatim>\<open>FINAL\<close> token is delivered.
\<close>

theorem stream_without_final:
  "compileLexer digitsSpecs False = Inr digitsLexer \<and>
   snd (tokenizerBuilder digitsLexer (''1'' @ [CHR 0x0A]) False) = Scanning 0 [''main''] \<and>
   nextToken digitsLexer (''1'' @ [CHR 0x0A]) (Scanning 0 [''main'']) =
     Some (Inr \<lparr>tk_name = ''NUM'', tk_group = ''main'', tk_text = ''1'', tk_offset = 0,
       tk_line = 1, tk_column = 1\<rparr>, Scanning 1 [''main'']) \<and>
   nextToken digitsLexer (''1'' @ [CHR 0x0A]) (Scanning 1 [''main'']) = None"
proof -
  have a: "nextToken digitsLexer (''1'' @ [CHR 0x0A]) (Scanning 0 [''main'']) =
     Some (Inr \<lparr>tk_name = ''NUM'', tk_group = ''main'', tk_text = ''1'', tk_offset = 0,
       tk_line = 1, tk_column = 1\<rparr>, Scanning 1 [''main''])"
    by (simp add: nextToken_def eval_defs)
  have b: "nextToken digitsLexer (''1'' @ [CHR 0x0A]) (Scanning 1 [''main'']) = None"
    by (simp add: nextToken_def eval_defs)
  from digits_compiled digits_start a b show ?thesis by blast
qed

subsection \<open>The debug flag\<close>

text \<open>
  For claim C9 (assigning to \<^verbatim>\<open>lexer.dbg\<close> changes what reading it returns): after
  \<^verbatim>\<open>lexer.dbg = true\<close> on a lexer compiled with the flag off, reading \<^verbatim>\<open>lexer.dbg\<close>
  still gives \<^verbatim>\<open>false\<close>.
\<close>

theorem dbg_setter_assigns_nothing:
  "compileLexer scenarioSpecs False = Inr scenarioLexer \<and>
   get_dbg scenarioLexer = False \<and>
   get_dbg (set_dbg True scenarioLexer) = False"
  by (simp add: scenario_compiled get_dbg_def set_dbg_def scenarioLexer_def)

subsection \<open>What the compiler builds\<close>

lemma buildRule_fields:
  "buildRule sp grp = Inr r \<Longrightarrow>
   group r = grp \<and> name r = specName sp \<and> action r = specAction sp \<and>
   push r = specPush sp \<and> pop r = specPop sp"
  by (auto simp: buildRule_def split: sum.splits if_splits)

lemma buildGroup_all2:
  "buildGroup sg grp = Inr rs \<Longrightarrow> list_all2 (\<lambda>sp r. buildRule sp grp = Inr r) sg rs"
  by (induction sg arbitrary: rs) (auto split: sum.splits)

lemma buildGroup_group:
  "buildGroup sg grp = Inr rs \<Longrightarrow> r \<in> set rs \<Longrightarrow> group r = grp"
  by (induction sg arbitrary: rs) (auto split: sum.splits dest: buildRule_fields)

lemma buildGroups_map_of:
  "buildGroups sps = Inr gs \<Longrightarrow>
   map_of gs grp = (case map_of sps grp of None \<Rightarrow> None | Some sg \<Rightarrow> Some (projr (buildGroup sg grp)))
   \<and> (\<forall>sg. map_of sps grp = Some sg \<longrightarrow> (\<exists>rs. buildGroup sg grp = Inr rs))"
  by (induction sps arbitrary: gs) (auto split: sum.splits)

lemma buildGroups_keys: "buildGroups sps = Inr gs \<Longrightarrow> map fst gs = map fst sps"
  by (induction sps arbitrary: gs) (auto split: sum.splits)

lemma map_of_retag:
  "map_of (map (\<lambda>(k, v). (k, f k v)) xs) k = map_option (f k) (map_of xs k)"
  by (induction xs) auto

lemma buildRules_Inr:
  assumes "buildRules sps = Inr (rls, grpAll)"
  shows "\<exists>gs. buildGroups sps = Inr gs \<and>
          grpAll = (case map_of gs ''ALL'' of Some g \<Rightarrow> g | None \<Rightarrow> []) @ [INVALID] \<and>
          rls = map (\<lambda>(grp, g). (grp, if grp = ''ALL'' then grpAll else g)) gs \<and>
          \<not> list_ex (list_ex (pushMissing rls)) (objectValues rls)"
  using assms by (auto simp: buildRules_def Let_def split: sum.splits if_splits)

lemma objectKeys_filter:
  "objectKeys rls = filter (\<lambda>k. k \<noteq> ''__proto__'') (map fst rls)"
  by (induction rls) (auto simp: objectKeys_def ownEntries_def)

lemma compileLexer_Inr:
  assumes "compileLexer sps opt = Inr L"
  shows "buildRules sps = Inr (rules L, ruleGroupAll L) \<and> map fst (rules L) = map fst sps \<and>
         objectKeys (rules L) \<noteq> [] \<and> start L = hd (objectKeys (rules L)) \<and>
         specs L = sps \<and> dbg L = opt"
proof -
  from assms obtain rls grpAll where b: "buildRules sps = Inr (rls, grpAll)"
    by (auto simp: compileLexer_def split: sum.splits)
  from buildRules_Inr[OF b] obtain gs where gs: "buildGroups sps = Inr gs"
    "rls = map (\<lambda>(grp, g). (grp, if grp = ''ALL'' then grpAll else g)) gs" by blast
  have k: "map fst rls = map fst sps"
    using buildGroups_keys[OF gs(1)] gs(2) by (auto simp: comp_def case_prod_beta)
  from assms b k show ?thesis
    by (auto simp: compileLexer_def split: list.splits)
qed

lemma compiled_groups:
  assumes "compileLexer sps opt = Inr L"
  shows "\<exists>allRules. buildGroup (allSpecs sps) ''ALL'' = Inr allRules \<and>
           ruleGroupAll L = allRules @ [INVALID] \<and>
           (\<forall>c. map_of (rules L) c =
              (case map_of sps c of
                 None \<Rightarrow> None
               | Some sg \<Rightarrow> Some (if c = ''ALL'' then allRules @ [INVALID]
                                   else projr (buildGroup sg c)))) \<and>
           (\<forall>c sg. map_of sps c = Some sg \<longrightarrow> (\<exists>rs. buildGroup sg c = Inr rs))"
proof -
  from compileLexer_Inr[OF assms] have b: "buildRules sps = Inr (rules L, ruleGroupAll L)" by simp
  from buildRules_Inr[OF b] obtain gs where gs: "buildGroups sps = Inr gs"
    "ruleGroupAll L = (case map_of gs ''ALL'' of Some g \<Rightarrow> g | None \<Rightarrow> []) @ [INVALID]"
    "rules L = map (\<lambda>(grp, g). (grp, if grp = ''ALL'' then ruleGroupAll L else g)) gs" by blast
  note m = buildGroups_map_of[OF gs(1)]
  define allRules where "allRules = (case map_of gs ''ALL'' of Some g \<Rightarrow> g | None \<Rightarrow> [])"
  have a1: "buildGroup (allSpecs sps) ''ALL'' = Inr allRules"
    using m[of "''ALL''"] by (auto simp: allSpecs_def allRules_def split: option.splits)
  have a2: "ruleGroupAll L = allRules @ [INVALID]" using gs(2) by (simp add: allRules_def)
  have a3: "map_of (rules L) c =
              (case map_of sps c of
                 None \<Rightarrow> None
               | Some sg \<Rightarrow> Some (if c = ''ALL'' then allRules @ [INVALID]
                                   else projr (buildGroup sg c)))" for c
    using m[of c] by (subst gs(3)) (auto simp: map_of_retag a2 split: option.splits)
  from a1 a2 a3 m show ?thesis by blast
qed

lemma compiled_rule_group:
  assumes "compileLexer sps opt = Inr L"
  shows "(\<forall>r \<in> set (ruleGroupAll L). group r = ''ALL'') \<and>
         (\<forall>c cur. getGroup (rules L) c = Own cur \<longrightarrow> (\<forall>r \<in> set cur. group r = c))"
proof -
  from compiled_groups[OF assms] obtain allRules where
    a: "buildGroup (allSpecs sps) ''ALL'' = Inr allRules"
    and b: "ruleGroupAll L = allRules @ [INVALID]"
    and c: "\<And>c. map_of (rules L) c =
              (case map_of sps c of
                 None \<Rightarrow> None
               | Some sg \<Rightarrow> Some (if c = ''ALL'' then allRules @ [INVALID]
                                   else projr (buildGroup sg c)))"
    and d: "\<And>c sg. map_of sps c = Some sg \<Longrightarrow> \<exists>rs. buildGroup sg c = Inr rs" by blast
  have all: "\<forall>r \<in> set (ruleGroupAll L). group r = ''ALL''"
    using buildGroup_group[OF a] b by (auto simp: INVALID_def)
  have own: "\<forall>r \<in> set cur. group r = c" if g: "getGroup (rules L) c = Own cur" for c cur
  proof -
    from g have mo: "map_of (rules L) c = Some cur"
      by (auto simp: getGroup_def split: option.splits if_splits)
    then obtain sg where sg: "map_of sps c = Some sg" using c[of c] by (auto split: option.splits)
    show ?thesis
    proof (cases "c = ''ALL''")
      case True
      with mo c[of c] sg b all show ?thesis by auto
    next
      case False
      from d[OF sg] obtain rs where rs: "buildGroup sg c = Inr rs" by blast
      with mo c[of c] sg False have "cur = rs" by auto
      with buildGroup_group[OF rs] show ?thesis by auto
    qed
  qed
  from all own show ?thesis by blast
qed

lemma tryRules_Some:
  "tryRules s offset rs = Some (tok, offset', r) \<Longrightarrow>
   r \<in> set rs \<and> (\<exists>m. exec (rx r) s offset = Some m \<and> m \<noteq> [] \<and>
     action r (makeToken s (group r) (name r) m offset) = Some tok \<and> offset' = offset + length m)"
  by (induction rs) (auto split: option.splits if_splits)

lemma tk_group_makeToken: "tk_group (makeToken s grp nm m offset) = grp"
  by (simp add: makeToken_def split: prod.splits)

subsection \<open>The group of a token\<close>

text \<open>
  Claim C10: the token built for a matching rule, before the action of the rule sees it,
  has the group of the rule as its group: the group the rule was declared in, which for
  a rule of the current group is the group on top of the stack and for a rule of the list
  tried in every group, the rule \<^verbatim>\<open>INVALID\<close> among them, is \<^verbatim>\<open>ALL\<close> whatever the
  current group is.
\<close>

theorem token_group_is_rule_group:
  assumes "compileLexer sps opt = Inr L"
    and "getGroup (rules L) c = Own cur"
    and "tryRules s offset (cur @ ruleGroupAll L) = Some (tok, offset', r)"
  shows "\<exists>m. exec (rx r) s offset = Some m \<and> m \<noteq> [] \<and>
           action r (makeToken s (group r) (name r) m offset) = Some tok \<and>
           tk_group (makeToken s (group r) (name r) m offset) = group r \<and>
           (r \<in> set cur \<and> group r = c \<or> r \<in> set (ruleGroupAll L) \<and> group r = ''ALL'') \<and>
           INVALID \<in> set (ruleGroupAll L) \<and> group INVALID = ''ALL''"
proof -
  from tryRules_Some[OF assms(3)] obtain m where
    m: "exec (rx r) s offset = Some m" "m \<noteq> []"
       "action r (makeToken s (group r) (name r) m offset) = Some tok"
    and r: "r \<in> set cur \<or> r \<in> set (ruleGroupAll L)" by auto
  from compiled_rule_group[OF assms(1)] assms(2) r
  have g: "r \<in> set cur \<and> group r = c \<or> r \<in> set (ruleGroupAll L) \<and> group r = ''ALL''" by blast
  from compiled_groups[OF assms(1)] have i: "INVALID \<in> set (ruleGroupAll L)" by auto
  have "group INVALID = ''ALL''" by (simp add: INVALID_def)
  with m g i show ?thesis by (auto simp: tk_group_makeToken)
qed

theorem token_group_is_rule_group_witness:
  "compileLexer scenarioSpecs False = Inr scenarioLexer \<and>
   getGroup (rules scenarioLexer) ''main'' = Own [ruleNUM, ruleWS] \<and>
   tryRules ''12 34'' 2 ([ruleNUM, ruleWS] @ ruleGroupAll scenarioLexer) =
     Some (makeToken ''12 34'' ''ALL'' ''INVALID'' '' 34'' 2, 5, INVALID) \<and>
   (\<exists>m. exec (rx INVALID) ''12 34'' 2 = Some m \<and> m \<noteq> [] \<and>
      action INVALID (makeToken ''12 34'' (group INVALID) (name INVALID) m 2) =
        Some (makeToken ''12 34'' ''ALL'' ''INVALID'' '' 34'' 2) \<and>
      tk_group (makeToken ''12 34'' (group INVALID) (name INVALID) m 2) = group INVALID \<and>
      (INVALID \<in> set [ruleNUM, ruleWS] \<and> group INVALID = ''main'' \<or>
       INVALID \<in> set (ruleGroupAll scenarioLexer) \<and> group INVALID = ''ALL'') \<and>
      INVALID \<in> set (ruleGroupAll scenarioLexer) \<and> group INVALID = ''ALL'')"
proof -
  have h2: "getGroup (rules scenarioLexer) ''main'' = Own [ruleNUM, ruleWS]"
    by (simp add: getGroup_def scenarioLexer_def)
  have h3: "tryRules ''12 34'' 2 ([ruleNUM, ruleWS] @ ruleGroupAll scenarioLexer) =
     Some (makeToken ''12 34'' ''ALL'' ''INVALID'' '' 34'' 2, 5, INVALID)"
    by (simp add: scenarioLexer_def exec_def oneOrMore_def ruleNUM_def ruleWS_def rxDigits_def
        rxSpaces_def isDigit_def skipAction_def INVALID_def lineTerminator_def identityAction_def)
  from token_group_is_rule_group[OF scenario_compiled h2 h3] scenario_compiled h2 h3
  show ?thesis by blast
qed

subsection \<open>The order of the rules\<close>

text \<open>The \<^verbatim>\<open>for\<close> loop stops at the first rule of the list that yields.\<close>

lemma tryRules_find:
  "map_option (snd \<circ> snd) (tryRules s offset rs) = find (yields s offset) rs"
  by (induction rs) (auto simp: yields_def split: option.splits)

text \<open>
  Claim C6, amended: at a scan step in the group \<open>c\<close> the rules are tried in this order:
  the compiled specs of \<open>c\<close> in the order they are declared, then the compiled specs of
  the group \<^verbatim>\<open>ALL\<close> in the order they are declared, then the rule \<^verbatim>\<open>INVALID\<close> (when
  \<open>c\<close> is \<^verbatim>\<open>ALL\<close> itself its own rules already end with \<^verbatim>\<open>INVALID\<close>). The step is
  decided by the first rule in this order that matches a non-empty text and whose action
  does not return \<^verbatim>\<open>null\<close>: of two rules that match at the same offset the earlier one
  wins unless its action returns \<^verbatim>\<open>null\<close>, in which case it is passed over.
\<close>

theorem rule_precedence:
  assumes "compileLexer sps opt = Inr L"
    and "map_of sps c = Some ownSpecs"
    and "offset < length s"
  shows "\<exists>own allRules.
           buildGroup ownSpecs c = Inr own \<and>
           buildGroup (allSpecs sps) ''ALL'' = Inr allRules \<and>
           ruleGroupAll L = allRules @ [INVALID] \<and>
           getGroup (rules L) c = Own (if c = ''ALL'' then allRules @ [INVALID] else own) \<and>
           lex_gen L s offset (c # stack) =
             (case tryRules s offset
                     ((if c = ''ALL'' then allRules @ [INVALID] else own) @ allRules @ [INVALID]) of
                None \<Rightarrow> None
              | Some (tok, offset', r) \<Rightarrow>
                  Some (Value tok, Scanning offset' (transition r (c # stack)))) \<and>
           map_option (snd \<circ> snd)
               (tryRules s offset
                  ((if c = ''ALL'' then allRules @ [INVALID] else own) @ allRules @ [INVALID])) =
             find (yields s offset)
               ((if c = ''ALL'' then allRules @ [INVALID] else own) @ allRules @ [INVALID])"
proof -
  from compiled_groups[OF assms(1)] obtain allRules where
    a: "buildGroup (allSpecs sps) ''ALL'' = Inr allRules"
    and b: "ruleGroupAll L = allRules @ [INVALID]"
    and c: "\<And>c. map_of (rules L) c =
              (case map_of sps c of
                 None \<Rightarrow> None
               | Some sg \<Rightarrow> Some (if c = ''ALL'' then allRules @ [INVALID]
                                   else projr (buildGroup sg c)))"
    and d: "\<And>c sg. map_of sps c = Some sg \<Longrightarrow> \<exists>rs. buildGroup sg c = Inr rs" by blast
  from d[OF assms(2)] obtain own where own: "buildGroup ownSpecs c = Inr own" by blast
  have g: "getGroup (rules L) c = Own (if c = ''ALL'' then allRules @ [INVALID] else own)"
    using c[of c] assms(2) own by (simp add: getGroup_def)
  have l: "lex_gen L s offset (c # stack) =
             (case tryRules s offset
                     ((if c = ''ALL'' then allRules @ [INVALID] else own) @ allRules @ [INVALID]) of
                None \<Rightarrow> None
              | Some (tok, offset', r) \<Rightarrow>
                  Some (Value tok, Scanning offset' (transition r (c # stack))))"
    using assms(3) by (simp add: lex_gen_eq g b del: tryRules.simps)
  from own a b g l tryRules_find show ?thesis by blast
qed

theorem rule_precedence_witness:
  "compileLexer scenarioSpecs False = Inr scenarioLexer \<and>
   map_of scenarioSpecs ''main'' =
     Some [RegExpSpec ''NUM'' rxDigits None, RegExpSpec ''WS'' rxSpaces (Some skipAction)] \<and>
   0 < length ''12 34'' \<and>
   (\<exists>own allRules.
      buildGroup [RegExpSpec ''NUM'' rxDigits None, RegExpSpec ''WS'' rxSpaces (Some skipAction)]
        ''main'' = Inr own \<and>
      buildGroup (allSpecs scenarioSpecs) ''ALL'' = Inr allRules \<and>
      ruleGroupAll scenarioLexer = allRules @ [INVALID] \<and>
      getGroup (rules scenarioLexer) ''main'' = Own own \<and>
      lex_gen scenarioLexer ''12 34'' 0 [''main''] =
        (case tryRules ''12 34'' 0 (own @ allRules @ [INVALID]) of
           None \<Rightarrow> None
         | Some (tok, offset', r) \<Rightarrow>
             Some (Value tok, Scanning offset' (transition r [''main'']))) \<and>
      map_option (snd \<circ> snd) (tryRules ''12 34'' 0 (own @ allRules @ [INVALID])) =
        find (yields ''12 34'' 0) (own @ allRules @ [INVALID]))"
proof -
  have h2: "map_of scenarioSpecs ''main'' =
     Some [RegExpSpec ''NUM'' rxDigits None, RegExpSpec ''WS'' rxSpaces (Some skipAction)]"
    by (simp add: scenarioSpecs_def)
  have h3: "0 < length ''12 34''" by simp
  from rule_precedence[OF scenario_compiled h2 h3, of "[]"] scenario_compiled h2 h3
  show ?thesis by simp
qed

lemma skip_compiled: "compileLexer skipSpecs False = Inr skipLexer"
  by (simp add: compileLexer_def buildRules_def objectValues_def objectKeys_def ownEntries_def
      Let_def skipSpecs_def skipLexer_def buildRule_def
      asRx_def at_def rxSpaces_def toString_def endsWith_def specAction_def specPush_def
      specPop_def pushMissing_def INVALID_def ruleSP_def ruleWS_def Let_def)

text \<open>
  Against claim C6 as it is stated: with the rule \<^verbatim>\<open>WS\<close> in the group \<^verbatim>\<open>main\<close>, whose
  action returns \<^verbatim>\<open>null\<close>, and the rule \<^verbatim>\<open>SP\<close> in the group \<^verbatim>\<open>ALL\<close>, both rules
  match at offset 0 of a text of one space, and the token comes from the later rule
  \<^verbatim>\<open>SP\<close>.
\<close>

theorem earlier_match_loses_when_skipped:
  "compileLexer skipSpecs False = Inr skipLexer \<and>
   getGroup (rules skipLexer) ''main'' = Own [ruleWS] \<and>
   ruleGroupAll skipLexer = [ruleSP, INVALID] \<and>
   matches '' '' 0 ruleWS \<and> matches '' '' 0 ruleSP \<and>
   generatorNext skipLexer '' '' (Scanning 0 [''main'']) =
     Some (Value \<lparr>tk_name = ''SP'', tk_group = ''ALL'', tk_text = '' '', tk_offset = 0,
       tk_line = 1, tk_column = 1\<rparr>, Scanning 1 [''main''])"
proof -
  have a: "getGroup (rules skipLexer) ''main'' = Own [ruleWS]"
    by (simp add: getGroup_def skipLexer_def)
  have b: "ruleGroupAll skipLexer = [ruleSP, INVALID]" by (simp add: skipLexer_def)
  have c: "matches '' '' 0 ruleWS" "matches '' '' 0 ruleSP"
    by (simp_all add: matches_def exec_def ruleWS_def ruleSP_def rxSpaces_def oneOrMore_def)
  have d: "generatorNext skipLexer '' '' (Scanning 0 [''main'']) =
     Some (Value \<lparr>tk_name = ''SP'', tk_group = ''ALL'', tk_text = '' '', tk_offset = 0,
       tk_line = 1, tk_column = 1\<rparr>, Scanning 1 [''main''])"
    by (simp add: eval_defs skipLexer_def ruleSP_def)
  from skip_compiled a b c d show ?thesis by blast
qed

subsection \<open>Compile errors\<close>

text \<open>The check of \<^verbatim>\<open>buildRule\<close> on the text of the pattern: for flags without a slash
  it holds exactly when the flags are \<^verbatim>\<open>vy\<close>.\<close>

lemma endsWith_iff: "endsWith str suf \<longleftrightarrow> (\<exists>pre. str = pre @ suf)"
proof
  assume "endsWith str suf"
  then have "str = take (length str - length suf) str @ suf"
    by (metis append_take_drop_id endsWith_def)
  then show "\<exists>pre. str = pre @ suf" ..
next
  assume "\<exists>pre. str = pre @ suf"
  then show "endsWith str suf" by (auto simp: endsWith_def)
qed

lemma endsWith_vy:
  assumes "CHR ''/'' \<notin> set fl"
  shows "endsWith (''/'' @ src @ ''/'' @ fl) ''/vy'' \<longleftrightarrow> fl = ''vy''"
proof
  assume "fl = ''vy''"
  then show "endsWith (''/'' @ src @ ''/'' @ fl) ''/vy''"
    by (auto simp: endsWith_iff intro: exI[of _ "''/'' @ src"])
next
  assume "endsWith (''/'' @ src @ ''/'' @ fl) ''/vy''"
  then obtain pre where p: "''/'' @ src @ ''/'' @ fl = pre @ ''/vy''"
    by (auto simp: endsWith_iff)
  then have "rev (''/'' @ src @ ''/'' @ fl) = rev (pre @ ''/vy'')" by simp
  then have r: "rev fl @ CHR ''/'' # rev src @ ''/'' = CHR ''y'' # CHR ''v'' # CHR ''/'' # rev pre"
    by simp
  from assms have n: "CHR ''/'' \<notin> set (rev fl)" by simp
  show "fl = ''vy''"
  proof (cases "rev fl")
    case Nil
    with r show ?thesis by simp
  next
    case (Cons a as)
    note c1 = this
    show ?thesis
    proof (cases as)
      case Nil
      with c1 r show ?thesis by simp
    next
      case (Cons b bs)
      note c2 = this
      show ?thesis
      proof (cases bs)
        case Nil
        with c1 c2 r have "rev fl = ''yv''" by simp
        then have "rev (rev fl) = rev ''yv''" by (rule arg_cong)
        then show ?thesis by simp
      next
        case (Cons d ds)
        with c1 c2 r have "d = CHR ''/''" by simp
        with c1 c2 Cons n show ?thesis by simp
      qed
    qed
  qed
qed

lemma toString_vy:
  "CHR ''/'' \<notin> set (flags r) \<Longrightarrow> endsWith (toString r) ''/vy'' \<longleftrightarrow> flags r = ''vy''"
  using endsWith_vy[of "flags r" "source r"] by (simp add: toString_def)

text \<open>A literal string that needs no escape the flag \<^verbatim>\<open>v\<close> refuses becomes a
  pattern with the flags \<^verbatim>\<open>vy\<close> that matches the string itself.\<close>

lemma rxEsc_Cons:
  "rxEsc (c # cs) = (if rxEscChar c then [backslash, c] else [c]) @ rxEsc cs"
  by (simp add: rxEsc_def)

lemma syntaxCharacter_escaped: "syntaxCharacter c \<Longrightarrow> rxEscChar c"
  by (auto simp: syntaxCharacter_def rxEscChar_def)

lemma rxEscChar_not_alnum: "rxEscChar c \<Longrightarrow> \<not> asciiAlnum c"
  by (auto simp: rxEscChar_def asciiAlnum_def backslash_def whiteSpace_def)

lemma parsePattern_plain_char:
  "\<not> rxEscChar c \<Longrightarrow> parsePattern (c # cs) = literalThen c (parsePattern cs)"
proof -
  assume n: "\<not> rxEscChar c"
  then have "c \<noteq> backslash" by (auto simp: rxEscChar_def)
  moreover from n have "\<not> syntaxCharacter c" using syntaxCharacter_escaped by blast
  ultimately show ?thesis by (cases cs) simp_all
qed

lemma parsePattern_escaped:
  "rxEscChar c \<Longrightarrow>
   parsePattern (backslash # c # cs) =
     (if identityEscape c then literalThen c (parsePattern cs) else Invalid)"
  by (simp add: rxEscChar_not_alnum)

text \<open>\<^verbatim>\<open>rxEsc\<close> leaves no syntax character unescaped and puts no backslash before a
  letter or a digit: its pattern is never a pattern proper.\<close>

lemma parsePattern_rxEsc:
  "parsePattern (rxEsc str) = (if plainLiteral str then Literal str else Invalid)"
proof (induction str)
  case Nil
  then show ?case by (simp add: rxEsc_def plainLiteral_def)
next
  case (Cons c cs)
  have p: "plainLiteral (c # cs) \<longleftrightarrow> (identityEscape c \<or> \<not> rxEscChar c) \<and> plainLiteral cs"
    by (simp add: plainLiteral_def)
  show ?case
  proof (cases "rxEscChar c")
    case True
    then show ?thesis
      using Cons.IH by (simp add: rxEsc_Cons parsePattern_escaped p del: parsePattern.simps)
  next
    case False
    then show ?thesis
      using Cons.IH by (simp add: rxEsc_Cons parsePattern_plain_char p del: parsePattern.simps)
  qed
qed

lemma toRx_eq:
  "toRx str =
     (if plainLiteral str
      then Inr \<lparr>source = (if rxEsc str = [] then ''(?:)'' else rxEsc str), flags = ''vy'',
                 matcher = literalMatcher str\<rparr>
      else Inl SyntaxError)"
  by (simp add: toRx_def newRegExp_def parsePattern_rxEsc)

lemma toRx_plain:
  "plainLiteral str \<Longrightarrow>
   toRx str = Inr \<lparr>source = (if rxEsc str = [] then ''(?:)'' else rxEsc str), flags = ''vy'',
                   matcher = literalMatcher str\<rparr>"
  by (simp add: toRx_eq)

lemma toRx_verbatim:
  assumes "plainLiteral str"
  shows "\<exists>r. toRx str = Inr r \<and> flags r = ''vy'' \<and> endsWith (toString r) ''/vy'' \<and>
           (\<forall>s i. i \<le> length s \<longrightarrow>
              exec r s i = (if take (length str) (drop i s) = str then Some str else None))"
proof -
  let ?r = "\<lparr>source = (if rxEsc str = [] then ''(?:)'' else rxEsc str), flags = ''vy'',
                   matcher = literalMatcher str\<rparr>"
  have "endsWith (toString ?r) ''/vy''"
    using endsWith_vy[of "''vy''" "source ?r"] by (simp add: toString_def)
  moreover have "exec ?r s i = (if take (length str) (drop i s) = str then Some str else None)"
    if "i \<le> length s" for s i
    using that by (simp add: exec_def literalMatcher_def)
  ultimately show ?thesis using toRx_plain[OF assms] by simp
qed

lemma buildRule_regular:
  assumes "regularSpec sp"
  shows "(badFlags sp \<longrightarrow> buildRule sp grp = Inl LexError) \<and>
         (\<not> badFlags sp \<longrightarrow> (\<exists>r. buildRule sp grp = Inr r))"
proof (cases "asRx (at sp 1)")
  case None
  with assms have "plainLiteral (specName sp)" by (simp add: regularSpec_def)
  from toRx_verbatim[OF this] obtain r where "toRx (specName sp) = Inr r"
    "endsWith (toString r) ''/vy''" by blast
  with None show ?thesis by (simp add: buildRule_def badFlags_def)
next
  case (Some r)
  with assms have "CHR ''/'' \<notin> set (flags r)" by (simp add: regularSpec_def)
  from toString_vy[OF this] Some show ?thesis
    by (simp add: buildRule_def badFlags_def)
qed

lemma buildGroup_regular:
  "list_all regularSpec sg \<Longrightarrow>
   (list_ex badFlags sg \<longrightarrow> buildGroup sg grp = Inl LexError) \<and>
   (\<not> list_ex badFlags sg \<longrightarrow> (\<exists>rs. buildGroup sg grp = Inr rs))"
proof (induction sg)
  case Nil
  then show ?case by simp
next
  case (Cons sp sg)
  then have r: "regularSpec sp" and ih: "(list_ex badFlags sg \<longrightarrow> buildGroup sg grp = Inl LexError) \<and>
   (\<not> list_ex badFlags sg \<longrightarrow> (\<exists>rs. buildGroup sg grp = Inr rs))" by simp_all
  from buildRule_regular[OF r, of grp] ih show ?case
    by (cases "badFlags sp"; cases "list_ex badFlags sg") auto
qed

lemma buildGroups_regular:
  "list_all regularSpec (specsOf sps) \<Longrightarrow>
   (list_ex badFlags (specsOf sps) \<longrightarrow> buildGroups sps = Inl LexError) \<and>
   (\<not> list_ex badFlags (specsOf sps) \<longrightarrow> (\<exists>gs. buildGroups sps = Inr gs))"
proof (induction sps)
  case Nil
  then show ?case by (simp add: specsOf_def)
next
  case (Cons a sps)
  obtain grp sg where a: "a = (grp, sg)" by (cases a)
  from Cons.prems a have r: "list_all regularSpec sg" and r': "list_all regularSpec (specsOf sps)"
    by (simp_all add: specsOf_def)
  note ih = Cons.IH[OF r']
  have e: "list_ex badFlags (specsOf ((grp, sg) # sps)) \<longleftrightarrow>
      list_ex badFlags sg \<or> list_ex badFlags (specsOf sps)"
    by (simp add: specsOf_def)
  from buildGroup_regular[OF r, of grp] ih show ?case
    unfolding a e by (cases "list_ex badFlags sg"; cases "list_ex badFlags (specsOf sps)") auto
qed

lemma buildGroup_push: "buildGroup sg grp = Inr rs \<Longrightarrow> map push rs = map specPush sg"
  by (induction sg arbitrary: rs) (auto split: sum.splits dest: buildRule_fields)

lemma buildGroups_push:
  "buildGroups sps = Inr gs \<Longrightarrow> map push (concat (map snd gs)) = map specPush (specsOf sps)"
  by (induction sps arbitrary: gs) (auto simp: specsOf_def buildGroup_push split: sum.splits)

lemma pushMissing_iff:
  "pushMissing rls r \<longleftrightarrow>
     (\<exists>p. push r = Some p \<and> p \<notin> set (map fst rls) \<and> \<not> inheritedKey rls p)"
proof (cases "push r")
  case None
  then show ?thesis by (simp add: pushMissing_def)
next
  case (Some p)
  have "map_of rls p = None \<longleftrightarrow> p \<notin> set (map fst rls)" by (simp add: map_of_eq_None_iff)
  with Some show ?thesis
    by (cases "map_of rls p") (auto simp: pushMissing_def getGroup_def)
qed

lemma ownEntries_id: "''__proto__'' \<notin> set (map fst rls) \<Longrightarrow> ownEntries rls = rls"
  by (induction rls) (auto simp: ownEntries_def)

lemma push_check:
  assumes d: "distinct (map fst sps)"
    and np: "''__proto__'' \<notin> set (map fst sps)"
    and reg: "list_all regularSpec (specsOf sps)"
    and gs: "buildGroups sps = Inr gs"
    and grpAll: "grpAll = (case map_of gs ''ALL'' of Some g \<Rightarrow> g | None \<Rightarrow> []) @ [INVALID]"
    and rls: "rls = map (\<lambda>(grp, g). (grp, if grp = ''ALL'' then grpAll else g)) gs"
  shows "list_ex (list_ex (pushMissing rls)) (objectValues rls) \<longleftrightarrow>
         list_ex (unknownPush sps) (specsOf sps)"
proof -
  have keys_gs: "map fst gs = map fst sps" by (rule buildGroups_keys[OF gs])
  have keys: "map fst rls = map fst sps"
    unfolding rls using keys_gs by (auto simp: comp_def case_prod_beta)
  have own: "objectValues rls = map snd rls"
    using np keys by (simp add: objectValues_def ownEntries_id)
  have "fst ` set rls = set (map fst sps)" using keys by (metis set_map)
  with np have "map_of rls ''__proto__'' = None"
    by (simp add: map_of_eq_None_iff)
  then have inh: "inheritedKey rls p \<longleftrightarrow> p \<in> set objectPrototype" for p
    by (simp add: inheritedKey_def)
  have dg: "distinct (map fst gs)" using d keys_gs by simp
  have pushes: "push ` set (concat (map snd gs)) = specPush ` set (specsOf sps)"
    using buildGroups_push[OF gs] by (metis set_map)
  have inv: "push INVALID = None" by (simp add: INVALID_def)
  have sub1: "r \<in> set (concat (map snd gs)) \<or> r = INVALID" if "r \<in> set (concat (map snd rls))" for r
  proof -
    from that obtain n g where ng: "(n, g) \<in> set gs"
      and r: "r \<in> set (if n = ''ALL'' then grpAll else g)"
      unfolding rls by auto
    show ?thesis
    proof (cases "n = ''ALL''")
      case True
      with r have ra: "r \<in> set grpAll" by simp
      show ?thesis
      proof (cases "map_of gs ''ALL''")
        case None
        with ra show ?thesis unfolding grpAll by simp
      next
        case (Some gA)
        then have "(''ALL'', gA) \<in> set gs" by (rule map_of_SomeD)
        with ra Some show ?thesis unfolding grpAll by force
      qed
    next
      case False
      with r ng show ?thesis by force
    qed
  qed
  have sub2: "r \<in> set (concat (map snd rls))" if "r \<in> set (concat (map snd gs))" for r
  proof -
    from that obtain n g where ng: "(n, g) \<in> set gs" and r: "r \<in> set g" by auto
    show ?thesis
    proof (cases "n = ''ALL''")
      case True
      with ng dg have "map_of gs ''ALL'' = Some g" by simp
      then have "r \<in> set grpAll" using r unfolding grpAll by simp
      moreover have "(''ALL'', grpAll) \<in> set rls" unfolding rls using ng True by force
      ultimately show ?thesis by force
    next
      case False
      with ng have "(n, g) \<in> set rls" unfolding rls by force
      with r show ?thesis by force
    qed
  qed
  have "list_ex (list_ex (pushMissing rls)) (objectValues rls) \<longleftrightarrow>
        (\<exists>r \<in> set (concat (map snd rls)). pushMissing rls r)"
    unfolding own by (force simp: list_ex_iff)
  also have "\<dots> \<longleftrightarrow> (\<exists>r \<in> set (concat (map snd gs)). pushMissing rls r)"
    using sub1 sub2 inv by (metis option.distinct(1) pushMissing_iff)
  also have "\<dots> \<longleftrightarrow> (\<exists>q \<in> push ` set (concat (map snd gs)).
      \<exists>p. q = Some p \<and> p \<notin> set (map fst sps) \<and> p \<notin> set objectPrototype)"
    by (simp add: pushMissing_iff keys inh)
  also have "\<dots> \<longleftrightarrow> (\<exists>sp \<in> set (specsOf sps).
      \<exists>p. specPush sp = Some p \<and> p \<notin> set (map fst sps) \<and> p \<notin> set objectPrototype)"
    unfolding pushes by simp
  also have "\<dots> \<longleftrightarrow> (\<exists>sp \<in> set (specsOf sps). unknownPush sps sp)"
  proof -
    have "(\<exists>p. specPush sp = Some p \<and> p \<notin> set (map fst sps) \<and> p \<notin> set objectPrototype) \<longleftrightarrow>
          unknownPush sps sp" if "sp \<in> set (specsOf sps)" for sp
    proof -
      from reg that have "regularSpec sp" by (simp add: list_all_iff)
      then show ?thesis
        by (cases "specPush sp") (auto simp: unknownPush_def regularSpec_def)
    qed
    then show ?thesis by blast
  qed
  finally show ?thesis by (simp add: list_ex_iff)
qed

text \<open>
  Claim C8, amended: for a table of specs with distinct group names, none of them
  \<^verbatim>\<open>__proto__\<close>, whose literal strings hold no character that \<^verbatim>\<open>rxEsc\<close> escapes and
  the flag \<^verbatim>\<open>v\<close> refuses to see escaped (minus, \<^verbatim>\<open>!\<close>, \<^verbatim>\<open><\<close>, \<^verbatim>\<open>=\<close>, \<^verbatim>\<open>#\<close>, comma,
  white space) and whose push targets are not names of properties of
  \<^verbatim>\<open>Object.prototype\<close>, \<^verbatim>\<open>compileLexer\<close> fails, with a \<^verbatim>\<open>LexError\<close>, exactly when the
  table is empty, or a pattern has flags other than exactly \<^verbatim>\<open>vy\<close>, or a push target is
  not a group of the table; otherwise it returns a lexer. Every such literal string
  becomes a pattern with the flags \<^verbatim>\<open>vy\<close> that matches at an offset exactly when the
  text there starts with the string, and then matches the string.
\<close>

theorem compile_errors:
  assumes "distinct (map fst sps)"
    and "''__proto__'' \<notin> set (map fst sps)"
    and "list_all regularSpec (specsOf sps)"
  shows "(excluded sps \<longrightarrow> compileLexer sps opt = Inl LexError) \<and>
         (\<not> excluded sps \<longrightarrow> (\<exists>L. compileLexer sps opt = Inr L)) \<and>
         (\<forall>str. plainLiteral str \<longrightarrow>
            (\<exists>r. toRx str = Inr r \<and> flags r = ''vy'' \<and> endsWith (toString r) ''/vy'' \<and>
               (\<forall>s i. i \<le> length s \<longrightarrow>
                  exec r s i =
                    (if take (length str) (drop i s) = str then Some str else None))))"
proof (cases "list_ex badFlags (specsOf sps)")
  case True
  with buildGroups_regular[OF assms(3)] have "buildGroups sps = Inl LexError" by simp
  then have "compileLexer sps opt = Inl LexError"
    by (simp add: compileLexer_def buildRules_def)
  with True toRx_verbatim show ?thesis by (simp add: excluded_def)
next
  case False
  with buildGroups_regular[OF assms(3)] obtain gs where gs: "buildGroups sps = Inr gs" by auto
  define grpAll where "grpAll = (case map_of gs ''ALL'' of Some g \<Rightarrow> g | None \<Rightarrow> []) @ [INVALID]"
  define rls where "rls = map (\<lambda>(grp, g). (grp, if grp = ''ALL'' then grpAll else g)) gs"
  note pc = push_check[OF assms gs grpAll_def rls_def]
  have br: "buildRules sps =
      (if list_ex (unknownPush sps) (specsOf sps) then Inl LexError else Inr (rls, grpAll))"
    using pc by (simp add: buildRules_def gs Let_def grpAll_def[symmetric] rls_def[symmetric])
  have "map fst rls = map fst sps"
    unfolding rls_def using buildGroups_keys[OF gs] by (auto simp: comp_def case_prod_beta)
  with assms(2) have keys: "objectKeys rls = map fst sps"
    by (simp add: objectKeys_def ownEntries_id)
  have c: "(excluded sps \<longrightarrow> compileLexer sps opt = Inl LexError) \<and>
         (\<not> excluded sps \<longrightarrow> (\<exists>L. compileLexer sps opt = Inr L))"
    using False br keys by (cases sps) (auto simp: excluded_def compileLexer_def)
  with toRx_verbatim show ?thesis by simp
qed

text \<open>Outside those tables: a literal string with a character the flag \<^verbatim>\<open>v\<close> does not
  let escape is a \<^verbatim>\<open>SyntaxError\<close>; a table whose only group is \<^verbatim>\<open>__proto__\<close> is an
  empty one; and the push targets of the group \<^verbatim>\<open>__proto__\<close> are not checked.\<close>

lemma literal_syntax_error:
  "compileLexer [(''main'', [StringSpec ''a=b'' None])] False = Inl SyntaxError"
  by (simp add: compileLexer_def buildRules_def buildRule_def asRx_def at_def toRx_eq
      plainLiteral_def rxEscChar_def identityEscape_def backslash_def whiteSpace_def)

lemma proto_only_table:
  "compileLexer [(''__proto__'', [RegExpSpec ''NUM'' rxDigits None])] False = Inl LexError"
  by (simp add: compileLexer_def buildRules_def objectValues_def objectKeys_def ownEntries_def
      Let_def buildRule_def asRx_def at_def rxDigits_def toString_def endsWith_def)

lemma proto_group_unchecked:
  "map_sum id start
     (compileLexer [(''__proto__'', [RegExpPushSpec ''NUM'' rxDigits ''nope'' None]),
                    (''main'', [RegExpPushSpec ''WS'' rxSpaces ''length'' None])] False) =
   Inr ''main''"
  by (simp add: compileLexer_def buildRules_def objectValues_def objectKeys_def ownEntries_def
      Let_def buildRule_def asRx_def at_def rxDigits_def rxSpaces_def toString_def endsWith_def
      specPush_def pushMissing_def getGroup_def inheritedKey_def arrayPrototype_def)

lemma sticky_rejected: "compileLexer stickySpecs False = Inl LexError"
  by (simp add: compileLexer_def buildRules_def objectValues_def objectKeys_def ownEntries_def
      Let_def stickySpecs_def buildRule_def
      asRx_def at_def rxDigits_def toString_def endsWith_def)

text \<open>
  Against claim C8 as it is stated: the pattern \<^verbatim>\<open>/\d+/y\<close> is sticky, and the specs
  \<^verbatim>\<open>{ main: [["NUM", /\d+/y]] }\<close> are refused with a \<^verbatim>\<open>LexError\<close>.
\<close>

theorem sticky_without_v_is_rejected:
  "CHR ''y'' \<in> set (flags (rxDigits\<lparr>flags := ''y''\<rparr>)) \<and>
   stickySpecs = [(''main'', [RegExpSpec ''NUM'' (rxDigits\<lparr>flags := ''y''\<rparr>) None])] \<and>
   compileLexer stickySpecs False = Inl LexError"
  using sticky_rejected by (simp add: stickySpecs_def)

theorem compile_errors_witness:
  "distinct (map fst pushSpecs) \<and> ''__proto__'' \<notin> set (map fst pushSpecs) \<and>
   list_all regularSpec (specsOf pushSpecs) \<and>
   \<not> excluded pushSpecs \<and> (\<exists>L. compileLexer pushSpecs False = Inr L) \<and>
   distinct (map fst lostPushSpecs) \<and> ''__proto__'' \<notin> set (map fst lostPushSpecs) \<and>
   list_all regularSpec (specsOf lostPushSpecs) \<and>
   excluded lostPushSpecs \<and> compileLexer lostPushSpecs False = Inl LexError \<and>
   distinct (map fst scenarioSpecs) \<and> ''__proto__'' \<notin> set (map fst scenarioSpecs) \<and>
   list_all regularSpec (specsOf scenarioSpecs) \<and>
   \<not> excluded scenarioSpecs \<and> (\<exists>L. compileLexer scenarioSpecs False = Inr L) \<and>
   distinct (map fst stickySpecs) \<and> ''__proto__'' \<notin> set (map fst stickySpecs) \<and>
   list_all regularSpec (specsOf stickySpecs) \<and>
   excluded stickySpecs \<and> compileLexer stickySpecs False = Inl LexError \<and>
   plainLiteral ''a+(b)'' \<and>
   (\<exists>r. toRx ''a+(b)'' = Inr r \<and> flags r = ''vy'' \<and> endsWith (toString r) ''/vy'' \<and>
      (\<forall>s i. i \<le> length s \<longrightarrow>
         exec r s i = (if take (length ''a+(b)'') (drop i s) = ''a+(b)'' then Some ''a+(b)'' else None)))"
proof -
  have p1: "distinct (map fst pushSpecs)" and p2: "''__proto__'' \<notin> set (map fst pushSpecs)"
    by (simp_all add: pushSpecs_def)
  have p3: "list_all regularSpec (specsOf pushSpecs)"
    by (simp add: pushSpecs_def specsOf_def regularSpec_def asRx_def at_def specPush_def
        plainLiteral_def rxEscChar_def backslash_def whiteSpace_def objectPrototype_def)
  have p4: "\<not> excluded pushSpecs"
    by (simp add: excluded_def pushSpecs_def specsOf_def badFlags_def unknownPush_def
        asRx_def at_def specPush_def)
  have l1: "distinct (map fst lostPushSpecs)"
    and l2: "''__proto__'' \<notin> set (map fst lostPushSpecs)"
    by (simp_all add: lostPushSpecs_def)
  have l3: "list_all regularSpec (specsOf lostPushSpecs)"
    by (simp add: lostPushSpecs_def specsOf_def regularSpec_def asRx_def at_def specPush_def
        plainLiteral_def rxEscChar_def backslash_def whiteSpace_def objectPrototype_def)
  have l4: "excluded lostPushSpecs"
    by (simp add: excluded_def lostPushSpecs_def specsOf_def badFlags_def unknownPush_def
        asRx_def at_def specPush_def)
  have a1: "distinct (map fst scenarioSpecs)"
    and a2: "''__proto__'' \<notin> set (map fst scenarioSpecs)"
    by (simp_all add: scenarioSpecs_def)
  have a3: "list_all regularSpec (specsOf scenarioSpecs)"
    by (simp add: scenarioSpecs_def specsOf_def regularSpec_def asRx_def at_def specPush_def
        rxDigits_def rxSpaces_def)
  have a4: "\<not> excluded scenarioSpecs"
    by (simp add: excluded_def scenarioSpecs_def specsOf_def badFlags_def unknownPush_def
        asRx_def at_def specPush_def rxDigits_def rxSpaces_def)
  have b1: "distinct (map fst stickySpecs)"
    and b2: "''__proto__'' \<notin> set (map fst stickySpecs)"
    by (simp_all add: stickySpecs_def)
  have b3: "list_all regularSpec (specsOf stickySpecs)"
    by (simp add: stickySpecs_def specsOf_def regularSpec_def asRx_def at_def specPush_def
        rxDigits_def)
  have b4: "excluded stickySpecs"
    by (simp add: excluded_def stickySpecs_def specsOf_def badFlags_def asRx_def at_def rxDigits_def)
  have c: "plainLiteral ''a+(b)''"
    by (simp add: plainLiteral_def identityEscape_def rxEscChar_def backslash_def whiteSpace_def)
  from compile_errors[OF p1 p2 p3, of False] compile_errors[OF l1 l2 l3, of False]
    compile_errors[OF a1 a2 a3, of False] compile_errors[OF b1 b2 b3, of False]
    p1 p2 p3 p4 l1 l2 l3 l4 a1 a2 a3 a4 b1 b2 b3 b4 c
  show ?thesis by blast
qed

subsection \<open>Covering the text\<close>

text \<open>A match is a slice of the text at the offset, and the new offset is inside the
  text.\<close>

lemma take_drop_length: "take n xs @ drop (length (take n xs)) xs = xs"
  by (cases "n \<le> length xs") (simp_all add: min_def)

lemma exec_slice:
  assumes "exec r s i = Some m"
  shows "drop i s = m @ drop (i + length m) s \<and> i + length m \<le> length s"
proof -
  define xs where "xs = drop i s"
  from assms obtain n where i: "i \<le> length s" and m: "m = take n xs"
    by (auto simp: exec_def xs_def split: if_splits option.splits)
  have "xs = m @ drop (length m) xs" unfolding m by (simp only: take_drop_length)
  moreover have "drop (length m) xs = drop (i + length m) s"
    by (simp add: xs_def add.commute)
  moreover have "length m \<le> length xs" unfolding m by simp
  then have "i + length m \<le> length s" using i by (simp add: xs_def)
  ultimately show ?thesis by (simp add: xs_def)
qed

lemma tk_text_makeToken: "tk_text (makeToken s grp nm m offset) = m"
  by (simp add: makeToken_def split: prod.splits)

lemma exec_INVALID_oneLine:
  assumes "oneLine s" and "offset < length s"
  shows "exec (rx INVALID) s offset = Some (drop offset s)"
proof -
  from assms(1) have "\<forall>c \<in> set (drop offset s). \<not> lineTerminator c"
    by (auto simp: oneLine_def list_ex_iff dest: in_set_dropD)
  then have tw: "takeWhile (\<lambda>c. \<not> lineTerminator c) (drop offset s) = drop offset s"
    by (simp add: takeWhile_eq_all_conv)
  show ?thesis
    using assms(2) by (simp add: exec_def INVALID_def oneOrMore_def tw)
qed

lemma buildGroup_plain:
  "buildGroup sg c = Inr rs \<Longrightarrow> list_all (identitySpec c) sg \<Longrightarrow> \<forall>r \<in> set rs. plainRule c r"
proof (induction sg arbitrary: rs)
  case Nil
  then show ?case by simp
next
  case (Cons sp sg)
  from Cons.prems(1) obtain r rs' where r: "buildRule sp c = Inr r"
    and rs': "buildGroup sg c = Inr rs'" and rs: "rs = r # rs'"
    by (auto split: sum.splits)
  from Cons.prems(2) have i: "identitySpec c sp" and tl_ok: "list_all (identitySpec c) sg" by simp_all
  from buildRule_fields[OF r] i have "plainRule c r"
    by (simp add: plainRule_def identitySpec_def)
  with Cons.IH[OF rs' tl_ok] rs show ?case by simp
qed

text \<open>One step in a text of one line, with plain rules before the rule \<^verbatim>\<open>INVALID\<close>:
  some rule yields, its token holds the text up to the new offset, and either the rule
  is plain or it pops and has consumed the rest of the text.\<close>

lemma step_oneLine:
  assumes plain: "\<forall>r \<in> set rs. plainRule c r"
    and off: "offset < length s"
    and one: "oneLine s"
  shows "\<exists>tok offset' r. tryRules s offset (rs @ INVALID # rest) = Some (tok, offset', r) \<and>
           offset' \<le> length s \<and> offset < offset' \<and>
           drop offset s = tk_text tok @ drop offset' s \<and>
           (plainRule c r \<or> pop r \<and> offset' = length s)"
proof (cases "tryRules s offset rs")
  case None
  have e: "exec (rx INVALID) s offset = Some (drop offset s)"
    by (rule exec_INVALID_oneLine[OF one off])
  have a: "action INVALID = identityAction" "pop INVALID" by (simp_all add: INVALID_def)
  have "tryRules s offset (rs @ INVALID # rest) =
      Some (makeToken s (group INVALID) (name INVALID) (drop offset s) offset,
            offset + length (drop offset s), INVALID)"
    using None e off a by (simp add: tryRules_append identityAction_def)
  with off a show ?thesis by (simp add: tk_text_makeToken)
next
  case (Some y)
  obtain tok offset' r where y: "y = (tok, offset', r)" by (cases y)
  from tryRules_Some[OF Some[unfolded y]] obtain m where r: "r \<in> set rs"
    and m: "exec (rx r) s offset = Some m" "m \<noteq> []"
       "action r (makeToken s (group r) (name r) m offset) = Some tok"
       "offset' = offset + length m" by blast
  from plain r have p: "plainRule c r" by simp
  then have "tok = makeToken s (group r) (name r) m offset"
    using m(3) by (simp add: plainRule_def identityAction_def)
  then have t: "tk_text tok = m" by (simp add: tk_text_makeToken)
  from exec_slice[OF m(1)] m(2,4) t p Some y show ?thesis
    by (simp add: tryRules_append)
qed

lemma transition_plain:
  assumes "plainRule c r" and "stack \<noteq> []" and "set stack \<subseteq> {c}"
  shows "transition r stack \<noteq> [] \<and> set (transition r stack) \<subseteq> {c}"
  using assms by (auto simp: transition_def plainRule_def split: if_splits)

lemma iterate_final:
  "\<not> offset < length s \<Longrightarrow>
   iterate L s (Scanning offset stack) = Some ([finalToken s offset], None)"
  by (subst iterate.simps) (simp add: generatorNext_def lex_gen_eq iterate_AfterFinal)

lemma covers_from:
  assumes cur: "getGroup (rules L) c = Own cur"
    and eff: "cur @ ruleGroupAll L = rs @ INVALID # rest"
    and plain: "\<forall>r \<in> set rs. plainRule c r"
    and one: "oneLine s"
  shows "offset \<le> length s \<Longrightarrow> (offset < length s \<longrightarrow> stack \<noteq> [] \<and> set stack \<subseteq> {c}) \<Longrightarrow>
         \<exists>toks. iterate L s (Scanning offset stack) = Some (toks @ [finalToken s (length s)], None) \<and>
                concat (map tk_text toks) = drop offset s"
proof (induction "length s - offset" arbitrary: offset stack rule: less_induct)
  case less
  show ?case
  proof (cases "offset < length s")
    case False
    with less.prems(1) have "offset = length s" by simp
    with iterate_final[of offset s L stack] show ?thesis by simp
  next
    case True
    with less.prems(2) obtain st where st: "stack = c # st" and inv: "stack \<noteq> []" "set stack \<subseteq> {c}"
      by (cases stack) auto
    from step_oneLine[OF plain True one, of rest] obtain tok offset' r where
      t: "tryRules s offset (rs @ INVALID # rest) = Some (tok, offset', r)"
      and le: "offset' \<le> length s" and lt: "offset < offset'"
      and cat: "drop offset s = tk_text tok @ drop offset' s"
      and r: "plainRule c r \<or> pop r \<and> offset' = length s" by blast
    have g: "generatorNext L s (Scanning offset stack) =
        Some (Value tok, Scanning offset' (transition r stack))"
      using True t by (simp add: generatorNext_def lex_gen_eq st cur eff)
    have "offset' < length s \<longrightarrow> transition r stack \<noteq> [] \<and> set (transition r stack) \<subseteq> {c}"
      using r transition_plain[OF _ inv] by auto
    from less.hyps[OF _ le this] lt True obtain toks where
      it: "iterate L s (Scanning offset' (transition r stack)) =
             Some (toks @ [finalToken s (length s)], None)"
      and c: "concat (map tk_text toks) = drop offset' s" by (auto simp: diff_less_mono2)
    have "iterate L s (Scanning offset stack) = Some ((tok # toks) @ [finalToken s (length s)], None)"
      by (simp add: iterate_Value[OF g] it)
    moreover have "concat (map tk_text (tok # toks)) = drop offset s" using c cat by simp
    ultimately show ?thesis by blast
  qed
qed

text \<open>
  Claim C5, amended: for every text without a line terminator and every table of specs
  that compiles and has one group only, whose specs all have the identity action, do not
  pop and push nothing but that group, the iteration ends with the \<^verbatim>\<open>FINAL\<close> token
  at the length of the text, and the texts of the tokens before it, in the order they are
  yielded, make up the text.
\<close>

theorem single_context_covers_text:
  assumes "compileLexer [(c, specGroup)] False = Inr L"
    and "list_all (identitySpec c) specGroup"
    and "oneLine s"
  shows "\<exists>toks. tokenize [(c, specGroup)] s = Inr (Some (toks @ [finalToken s (length s)], None)) \<and>
           concat (map tk_text toks) = s"
proof -
  from compiled_groups[OF assms(1)] obtain allRules where
    a: "buildGroup (allSpecs [(c, specGroup)]) ''ALL'' = Inr allRules"
    and b: "ruleGroupAll L = allRules @ [INVALID]"
    and m: "\<And>k. map_of (rules L) k =
              (case map_of [(c, specGroup)] k of
                 None \<Rightarrow> None
               | Some sg \<Rightarrow> Some (if k = ''ALL'' then allRules @ [INVALID]
                                   else projr (buildGroup sg k)))"
    and d: "\<And>k sg. map_of [(c, specGroup)] k = Some sg \<Longrightarrow> \<exists>rs. buildGroup sg k = Inr rs" by blast
  from d[of c specGroup] obtain rs where rs: "buildGroup specGroup c = Inr rs" by auto
  note plain = buildGroup_plain[OF rs assms(2)]
  from compileLexer_Inr[OF assms(1)] have start: "start L = c"
    by (auto simp: objectKeys_filter split: if_splits)
  have "\<exists>cur rest. getGroup (rules L) c = Own cur \<and> cur @ ruleGroupAll L = rs @ INVALID # rest"
  proof (cases "c = ''ALL''")
    case True
    with a rs have "allRules = rs" by (simp add: allSpecs_def)
    with True m[of c] b show ?thesis by (simp add: getGroup_def)
  next
    case False
    with a have "allRules = []" by (simp add: allSpecs_def)
    with False m[of c] b rs show ?thesis by (simp add: getGroup_def)
  qed
  then obtain cur rest where cur: "getGroup (rules L) c = Own cur"
    and eff: "cur @ ruleGroupAll L = rs @ INVALID # rest" by blast
  from covers_from[OF cur eff plain assms(3), of 0 "[c]"] obtain toks where
    "iterate L s (Scanning 0 [c]) = Some (toks @ [finalToken s (length s)], None)"
    "concat (map tk_text toks) = s" by auto
  with assms(1) start show ?thesis by (auto simp: tokenize_def tokenizerBuilder_def)
qed

theorem single_context_covers_text_witness:
  "compileLexer [(''main'', [RegExpSpec ''NUM'' rxDigits None])] False = Inr digitsLexer \<and>
   list_all (identitySpec ''main'') [RegExpSpec ''NUM'' rxDigits None] \<and>
   oneLine ''12 34'' \<and>
   (\<exists>toks. tokenize [(''main'', [RegExpSpec ''NUM'' rxDigits None])] ''12 34'' =
             Inr (Some (toks @ [finalToken ''12 34'' (length ''12 34'')], None)) \<and>
           concat (map tk_text toks) = ''12 34'')"
proof -
  have h1: "compileLexer [(''main'', [RegExpSpec ''NUM'' rxDigits None])] False = Inr digitsLexer"
    using digits_compiled by (simp add: digitsSpecs_def)
  have h2: "list_all (identitySpec ''main'') [RegExpSpec ''NUM'' rxDigits None]"
    by (simp add: identitySpec_def specAction_def specPop_def specPush_def at_def)
  have h3: "oneLine ''12 34''" by (simp add: oneLine_def lineTerminator_def)
  from single_context_covers_text[OF h1 h2 h3] h1 h2 h3 show ?thesis by blast
qed

lemma pop_compiled: "compileLexer popSpecs False = Inr popLexer"
  by (simp add: compileLexer_def buildRules_def objectValues_def objectKeys_def ownEntries_def
      Let_def popSpecs_def popLexer_def buildRule_def
      asRx_def at_def toRx_eq plainLiteral_def rxEsc_def rxEscChar_def identityEscape_def
      backslash_def whiteSpace_def
      toString_def endsWith_def specAction_def specPush_def specPop_def pushMissing_def
      INVALID_def ruleA_def)

lemma pop_iterate:
  "iterate popLexer ''ab'' (Scanning 0 [''main'']) = Some (
     [\<lparr>tk_name = ''a'', tk_group = ''main'', tk_text = ''a'', tk_offset = 0, tk_line = 1,
        tk_column = 1\<rparr>,
      \<lparr>tk_name = ''FINAL'', tk_group = ''FINAL'', tk_text = [], tk_offset = 1, tk_line = 1,
        tk_column = 2\<rparr>], None)"
proof -
  have s0: "generatorNext popLexer ''ab'' (Scanning 0 [''main'']) =
      Some (Value \<lparr>tk_name = ''a'', tk_group = ''main'', tk_text = ''a'', tk_offset = 0,
        tk_line = 1, tk_column = 1\<rparr>, Scanning 1 [])"
    by (simp add: eval_defs popLexer_def ruleA_def literalMatcher_def)
  have s1: "generatorNext popLexer ''ab'' (Scanning 1 []) =
      Some (Value \<lparr>tk_name = ''FINAL'', tk_group = ''FINAL'', tk_text = [], tk_offset = 1,
        tk_line = 1, tk_column = 2\<rparr>, AfterFinal)"
    by (simp add: eval_defs)
  have i1: "iterate popLexer ''ab'' (Scanning 1 []) =
      Some ([\<lparr>tk_name = ''FINAL'', tk_group = ''FINAL'', tk_text = [], tk_offset = 1,
        tk_line = 1, tk_column = 2\<rparr>], None)"
    by (subst iterate_Value[OF s1]) (simp add: iterate_AfterFinal)
  show ?thesis
    by (subst iterate_Value[OF s0], subst i1) simp
qed

text \<open>
  Against claim C5 as it is stated: the specs \<^verbatim>\<open>{ main: [["a", POP]] }\<close> have one group
  and the identity action; on the text \<^verbatim>\<open>"ab"\<close> the rule pops the only group, the scan
  stops, and the tokens before \<^verbatim>\<open>FINAL\<close> hold \<^verbatim>\<open>"a"\<close> only.
\<close>

theorem pop_rule_ends_scan_early:
  "popSpecs = [(''main'', [StringPopSpec ''a'' None])] \<and>
   specAction (StringPopSpec ''a'' None) = identityAction \<and>
   tokenize popSpecs ''ab'' = Inr (Some (
     [\<lparr>tk_name = ''a'', tk_group = ''main'', tk_text = ''a'', tk_offset = 0, tk_line = 1,
        tk_column = 1\<rparr>,
      \<lparr>tk_name = ''FINAL'', tk_group = ''FINAL'', tk_text = [], tk_offset = 1, tk_line = 1,
        tk_column = 2\<rparr>], None)) \<and>
   concat (map tk_text (butlast (tokensOf (tokenize popSpecs ''ab'')))) \<noteq> ''ab''"
proof -
  have a: "specAction (StringPopSpec ''a'' None) = identityAction" by (simp add: specAction_def)
  have b: "snd (tokenizerBuilder popLexer ''ab'' False) = Scanning 0 [''main'']"
    by (simp add: tokenizerBuilder_def popLexer_def)
  have c: "tokenize popSpecs ''ab'' = Inr (Some (
     [\<lparr>tk_name = ''a'', tk_group = ''main'', tk_text = ''a'', tk_offset = 0, tk_line = 1,
        tk_column = 1\<rparr>,
      \<lparr>tk_name = ''FINAL'', tk_group = ''FINAL'', tk_text = [], tk_offset = 1, tk_line = 1,
        tk_column = 2\<rparr>], None))"
    by (simp add: tokenize_def pop_compiled b pop_iterate)
  have d: "concat (map tk_text (butlast (tokensOf (tokenize popSpecs ''ab'')))) \<noteq> ''ab''"
    by (simp add: c)
  from a c d popSpecs_def show ?thesis by blast
qed

subsection \<open>After the last token\<close>

text \<open>Once the \<^verbatim>\<open>FINAL\<close> token has been yielded, or the generator has thrown, every
  call of \<^verbatim>\<open>nextToken\<close> throws a \<^verbatim>\<open>LexEndedError\<close>; and the generator gets there by
  yielding the \<^verbatim>\<open>FINAL\<close> token only.\<close>

lemma nextToken_after_final:
  "nextToken L s AfterFinal = Some (Inl LexEndedError, Completed)"
  "nextToken L s Completed = Some (Inl LexEndedError, Completed)"
  by (simp_all add: nextToken_def generatorNext_def)

lemma final_is_last:
  assumes "generatorNext L s g = Some (out, AfterFinal)"
  shows "\<exists>offset stack. g = Scanning offset stack \<and> out = Value (finalToken s offset)"
  using assms
  by (cases g) (auto simp: generatorNext_def lex_gen_eq
      split: if_splits list.splits property.splits option.splits)

subsection \<open>The tokens do not depend on the debug flag\<close>

lemma generatorNext_dbg: "generatorNext (L\<lparr>dbg := b\<rparr>) s g = generatorNext L s g"
  by (cases g)
    (simp_all add: generatorNext_def lex_gen_eq cong: list.case_cong property.case_cong)

lemma iterate_transfer:
  assumes "iterate L s g = Some y"
  shows "\<forall>L'. (\<forall>g. generatorNext L' s g = generatorNext L s g) \<longrightarrow> iterate L' s g = Some y"
proof (rule iterate.raw_induct[where P = "\<lambda>L s g y.
    \<forall>L'. (\<forall>g. generatorNext L' s g = generatorNext L s g) \<longrightarrow> iterate L' s g = Some y", OF _ assms])
  fix it :: "lexer \<Rightarrow> string \<Rightarrow> gen \<Rightarrow> (token list \<times> error option) option" and L s g y
  assume IH: "\<And>L s g y. it L s g = Some y \<Longrightarrow>
      \<forall>L'. (\<forall>g. generatorNext L' s g = generatorNext L s g) \<longrightarrow> iterate L' s g = Some y"
    and body: "(case generatorNext L s g of
        None \<Rightarrow> None
      | Some (Done, _) \<Rightarrow> Some ([], None)
      | Some (Thrown e, _) \<Rightarrow> Some ([], Some e)
      | Some (Value tok, g') \<Rightarrow>
          Option.bind (it L s g') (\<lambda>(toks, e). Some (tok # toks, e))) = Some y"
  show "\<forall>L'. (\<forall>g. generatorNext L' s g = generatorNext L s g) \<longrightarrow> iterate L' s g = Some y"
  proof (intro allI impI)
    fix L'
    assume same: "\<forall>g. generatorNext L' s g = generatorNext L s g"
    from body obtain out g' where n: "generatorNext L s g = Some (out, g')"
      by (cases "generatorNext L s g") auto
    show "iterate L' s g = Some y"
    proof (cases out)
      case (Value tok)
      with body n obtain y' where y': "it L s g' = Some y'"
        and y: "y = (tok # fst y', snd y')"
        by (cases "it L s g'") (auto split: prod.splits)
      from IH[OF y'] same have "iterate L' s g' = Some y'" by blast
      moreover have "generatorNext L' s g = Some (Value tok, g')" using same n Value by simp
      ultimately show ?thesis using y by (simp add: iterate_Value split: prod.splits)
    next
      case Done
      with body n same show ?thesis by (subst iterate.simps) simp
    next
      case (Thrown e)
      with body n same show ?thesis by (subst iterate.simps) simp
    qed
  qed
qed

lemma iterate_dbg: "iterate (L\<lparr>dbg := b\<rparr>) s g = iterate L s g"
proof (cases "iterate L s g")
  case (Some y)
  with iterate_transfer[OF Some] show ?thesis by (simp add: generatorNext_dbg)
next
  case None
  show ?thesis
  proof (cases "iterate (L\<lparr>dbg := b\<rparr>) s g")
    case (Some y)
    from iterate_transfer[OF Some, rule_format, of L] have "iterate L s g = Some y"
      by (simp add: generatorNext_dbg)
    with None show ?thesis by simp
  qed (simp add: None)
qed

subsection \<open>Texts of one line\<close>

text \<open>Where the character at the offset is not a line terminator the rule
  \<^verbatim>\<open>INVALID\<close> matches and yields; so on a text without line terminators the loop is
  never stuck, every step that yields moves the offset forward, and the iteration
  returns after at most as many tokens as the text has characters left, and one more.\<close>

lemma catch_all_matches:
  assumes "offset < length s" and "\<not> lineTerminator (s ! offset)"
  shows "matches s offset INVALID \<and> yields s offset INVALID"
proof -
  from assms(1) obtain c cs where d: "drop offset s = c # cs" and c: "c = s ! offset"
    by (metis Cons_nth_drop_Suc)
  with assms(2) have "takeWhile (\<lambda>c. \<not> lineTerminator c) (drop offset s) \<noteq> []" by simp
  with assms(1) show ?thesis
    by (simp add: matches_def yields_def exec_def INVALID_def oneOrMore_def identityAction_def)
qed

lemma tryRules_None_iff: "tryRules s offset rs = None \<longleftrightarrow> \<not> list_ex (yields s offset) rs"
  by (induction rs) (auto simp: yields_def split: option.splits)

lemma one_line_scan_returns:
  assumes inv: "INVALID \<in> set (ruleGroupAll L)" and one: "oneLine s"
  shows "\<exists>toks e. iterate L s (Scanning offset stack) = Some (toks, e) \<and>
           length toks \<le> length s - offset + 1"
proof (induction "length s - offset" arbitrary: offset stack rule: less_induct)
  case less
  show ?case
  proof (cases "generatorNext L s (Scanning offset stack)")
    case None
    then have off: "offset < length s" and t: "\<exists>c st cur. stack = c # st \<and>
        getGroup (rules L) c = Own cur \<and> tryRules s offset (cur @ ruleGroupAll L) = None"
      by (auto simp: generatorNext_def lex_gen_eq
          split: if_splits list.splits property.splits option.splits)
    from one off have "\<not> lineTerminator (s ! offset)"
      by (auto simp: oneLine_def list_ex_iff)
    from catch_all_matches[OF off this] inv t show ?thesis
      by (auto simp: tryRules_None_iff list_ex_iff)
  next
    case (Some y)
    obtain out g' where y: "y = (out, g')" by (cases y)
    show ?thesis
    proof (cases out)
      case Done
      with Some y show ?thesis by (subst iterate.simps) simp
    next
      case (Thrown e)
      with Some y show ?thesis by (subst iterate.simps) simp
    next
      case (Value tok)
      show ?thesis
      proof (cases g')
        case (Scanning offset' stack')
        from Some y Value Scanning have off: "offset < length s" and lt: "offset < offset'"
          by (auto simp: generatorNext_def lex_gen_eq
              split: if_splits list.splits property.splits option.splits dest!: tryRules_Some)
        then have "length s - offset' < length s - offset" by simp
        from less[OF this] obtain toks e where
          it: "iterate L s (Scanning offset' stack') = Some (toks, e)"
          and n: "length toks \<le> length s - offset' + 1" by blast
        have "iterate L s (Scanning offset stack) = Some (tok # toks, e)"
          using Some y Value Scanning it by (simp add: iterate_Value)
        with n off lt show ?thesis by simp
      next
        case AfterFinal
        with Some y Value show ?thesis by (simp add: iterate_Value iterate_AfterFinal)
      next
        case Completed
        with Some y Value have False
          by (auto simp: generatorNext_def lex_gen_eq
              split: if_splits list.splits property.splits option.splits)
        then show ?thesis ..
      qed
    qed
  qed
qed

end
